theory Spec2Isabelle
  imports Complex_Main "HOL-Library.Multiset"
begin

section \<open>Tensors, errors and the torch primitives used by model.py\<close>

text \<open>
  model.py computes in float32. Two embeddings stand side by side. In the first, tensor
  entries are exact reals: it is the formula that the code evaluates, with rounding,
  overflow and the non-finite floats left out. Where a denominator or the argument of a
  logarithm matters, a theorem carries the hypotheses (non-negative evidence, at least one
  class) under which every denominator is positive and every logarithm is taken of a
  positive number. In the second, \<open>acc_loss\<close> is embedded over IEEE 754 binary32, for the
  statements about the float that the code returns, where rounding decides. The
  consistency loss has no binary32 embedding: its values go through \<open>torch.log2\<close>, whose
  rounding IEEE 754 does not fix.

  Python exceptions are values: \<open>Inl\<close> of the exception, \<open>Inr\<close> of the result.
  \<open>RuntimeError\<close> is what torch raises on a shape mismatch and what \<open>one_hot\<close>
  raises on a label out of range.
\<close>

datatype error = IndexError | ZeroDivisionError | RuntimeError

text \<open>
  A two-dimensional tensor of shape \<open>(length rows, cols)\<close>. The shape is kept beside the
  data because a tensor with no rows still has a number of columns. Every row of a tensor
  has \<open>cols\<close> entries (\<open>wf_tensor\<close>).
\<close>

record tensor2 =
  cols :: nat
  rows :: "real list list"

definition wf_tensor :: "tensor2 \<Rightarrow> bool" where
  "wf_tensor T = list_all (\<lambda>r. length r = cols T) (rows T)"

definition nonneg :: "tensor2 \<Rightarrow> bool" where
  "nonneg T = list_all (list_all (\<lambda>x. 0 \<le> x)) (rows T)"

text \<open>\<open>torch.sum(T, dim=0, keepdim=False)\<close>: the sum of each column.\<close>

definition sum_dim0 :: "tensor2 \<Rightarrow> real list" where
  "sum_dim0 T = map (\<lambda>k. sum_list (map (\<lambda>r. r ! k) (rows T))) [0..<cols T]"

text \<open>
  \<open>F.one_hot(y, num_classes)\<close> for a scalar label on the CPU, followed by \<open>.float()\<close>:
  a negative label and a label that is not smaller than \<open>num_classes\<close> are refused.
\<close>

definition one_hot :: "int \<Rightarrow> nat \<Rightarrow> error + real list" where
  "one_hot y num_classes =
     (if y < 0 \<or> int num_classes \<le> y then Inl RuntimeError
      else Inr (map (\<lambda>k. if int k = y then 1 else 0) [0..<num_classes]))"

text \<open>
  Elementwise binary operations broadcast: two sizes go together when they are equal or
  one of them is 1, and the operand of size 1 is repeated.
\<close>

definition broadcastable :: "nat \<Rightarrow> nat \<Rightarrow> bool" where
  "broadcastable n m = (n = m \<or> n = 1 \<or> m = 1)"

definition bc :: "(real \<Rightarrow> real \<Rightarrow> real) \<Rightarrow> real list \<Rightarrow> real list \<Rightarrow> real list" where
  "bc f xs ys =
     (if length xs = length ys then map2 f xs ys
      else if length xs = 1 then map (f (hd xs)) ys
      else map (\<lambda>x. f x (hd ys)) xs)"

definition broadcast_op ::
  "(real \<Rightarrow> real \<Rightarrow> real) \<Rightarrow> real list \<Rightarrow> real list \<Rightarrow> error + real list" where
  "broadcast_op f xs ys =
     (if broadcastable (length xs) (length ys) then Inr (bc f xs ys) else Inl RuntimeError)"

section \<open>acc\_loss\<close>

text \<open>Lines 14 to 16: the fused Dirichlet parameters, their strength and the prediction.\<close>

definition alpha_a_of :: "tensor2 \<Rightarrow> real list" where
  "alpha_a_of evidences = map (\<lambda>x. x + 1) (sum_dim0 evidences)"

definition S_of :: "tensor2 \<Rightarrow> real" where
  "S_of evidences = sum_list (alpha_a_of evidences)"

definition P_of :: "tensor2 \<Rightarrow> real list" where
  "P_of evidences = map (\<lambda>x. x / S_of evidences) (alpha_a_of evidences)"

definition acc_loss :: "int \<Rightarrow> tensor2 \<Rightarrow> nat \<Rightarrow> error + real" where
  "acc_loss y evidences classes =
     (let alpha_a = alpha_a_of evidences;
          S = S_of evidences;
          P = P_of evidences
      in case one_hot y classes of
           Inl e \<Rightarrow> Inl e
         | Inr label \<Rightarrow>
             (case broadcast_op (\<lambda>l p. l - p) label P of
                Inl e \<Rightarrow> Inl e
              | Inr diff \<Rightarrow>
                  (let L_err = map (\<lambda>d. d ^ 2) diff;
                       L_var = map (\<lambda>p. p * (1 - p) / (S + 1)) P
                   in case broadcast_op (\<lambda>a b. a + b) L_err L_var of
                        Inl e \<Rightarrow> Inl e
                      | Inr t \<Rightarrow> Inr (sum_list t))))"

section \<open>Binary32 arithmetic\<close>

text \<open>
  The tensors of model.py hold IEEE 754 binary32 numbers. A float is not-a-number, an
  infinity with its sign, or a finite number with its sign (\<open>True\<close> for minus) and its
  magnitude; the magnitude 0 gives the two zeros. An operation on finite numbers rounds
  the exact result to the nearest float, ties to the even significand: 24 significant
  bits, the least exponent of the last place \<open>- 149\<close> (subnormal numbers), and an infinity
  from \<open>2 ^ 128\<close> on.
\<close>

datatype f32 = NaN | Inf bool | Fin bool real

definition pow2 :: "int \<Rightarrow> real" where
  "pow2 q = (if 0 \<le> q then 2 ^ nat q else 1 / 2 ^ nat (- q))"

definition rne :: "real \<Rightarrow> int" where
  "rne r =
     (let f = \<lfloor>r\<rfloor>
      in if r - of_int f < 1 / 2 then f
         else if 1 / 2 < r - of_int f then f + 1
         else if even f then f else f + 1)"

definition round_mag :: "real \<Rightarrow> real" where
  "round_mag m =
     (let q = max (\<lfloor>log 2 m\<rfloor> - 23) (- 149)
      in of_int (rne (m / pow2 q)) * pow2 q)"

definition round32 :: "bool \<Rightarrow> real \<Rightarrow> f32" where
  "round32 s m = (let y = round_mag m in if 2 ^ 128 \<le> y then Inf s else Fin s y)"

definition valof :: "bool \<Rightarrow> real \<Rightarrow> real" where
  "valof s m = (if s then - m else m)"

fun fadd :: "f32 \<Rightarrow> f32 \<Rightarrow> f32" where
  "fadd NaN b = NaN"
| "fadd a NaN = NaN"
| "fadd (Inf s) (Inf t) = (if s = t then Inf s else NaN)"
| "fadd (Inf s) (Fin t m) = Inf s"
| "fadd (Fin s m) (Inf t) = Inf t"
| "fadd (Fin s m) (Fin t n) =
     (let x = valof s m + valof t n
      in if x = 0 then Fin (s \<and> t) 0 else round32 (x < 0) \<bar>x\<bar>)"

fun fneg :: "f32 \<Rightarrow> f32" where
  "fneg NaN = NaN"
| "fneg (Inf s) = Inf (\<not> s)"
| "fneg (Fin s m) = Fin (\<not> s) m"

definition fsub :: "f32 \<Rightarrow> f32 \<Rightarrow> f32" where
  "fsub a b = fadd a (fneg b)"

fun fmul :: "f32 \<Rightarrow> f32 \<Rightarrow> f32" where
  "fmul NaN b = NaN"
| "fmul a NaN = NaN"
| "fmul (Inf s) (Inf t) = Inf (s \<noteq> t)"
| "fmul (Inf s) (Fin t m) = (if m = 0 then NaN else Inf (s \<noteq> t))"
| "fmul (Fin s m) (Inf t) = (if m = 0 then NaN else Inf (s \<noteq> t))"
| "fmul (Fin s m) (Fin t n) =
     (if m * n = 0 then Fin (s \<noteq> t) 0 else round32 (s \<noteq> t) (m * n))"

fun fdiv :: "f32 \<Rightarrow> f32 \<Rightarrow> f32" where
  "fdiv NaN b = NaN"
| "fdiv a NaN = NaN"
| "fdiv (Inf s) (Inf t) = NaN"
| "fdiv (Inf s) (Fin t m) = Inf (s \<noteq> t)"
| "fdiv (Fin s m) (Inf t) = Fin (s \<noteq> t) 0"
| "fdiv (Fin s m) (Fin t n) =
     (if n = 0 then (if m = 0 then NaN else Inf (s \<noteq> t))
      else if m = 0 then Fin (s \<noteq> t) 0
      else round32 (s \<noteq> t) (m / n))"

section \<open>acc\_loss in binary32\<close>

text \<open>
  The same lines 14 to 21 on float32 tensors, each operation rounded. \<open>torch.sum\<close> adds
  in index order from 0; sums of one or two numbers do not depend on the order.
  \<open>diff ** 2\<close> is the product \<open>diff * diff\<close>, and the Python numbers \<open>1\<close> are the float 1.
\<close>

record tensor32 =
  cols32 :: nat
  rows32 :: "f32 list list"

definition fsum :: "f32 list \<Rightarrow> f32" where
  "fsum xs = foldl fadd (Fin False 0) xs"

definition sum_dim0_32 :: "tensor32 \<Rightarrow> f32 list" where
  "sum_dim0_32 T = map (\<lambda>k. fsum (map (\<lambda>r. r ! k) (rows32 T))) [0..<cols32 T]"

definition one_hot_32 :: "int \<Rightarrow> nat \<Rightarrow> error + f32 list" where
  "one_hot_32 y num_classes =
     (if y < 0 \<or> int num_classes \<le> y then Inl RuntimeError
      else Inr (map (\<lambda>k. if int k = y then Fin False 1 else Fin False 0) [0..<num_classes]))"

definition bc_32 :: "(f32 \<Rightarrow> f32 \<Rightarrow> f32) \<Rightarrow> f32 list \<Rightarrow> f32 list \<Rightarrow> f32 list" where
  "bc_32 f xs ys =
     (if length xs = length ys then map2 f xs ys
      else if length xs = 1 then map (f (hd xs)) ys
      else map (\<lambda>x. f x (hd ys)) xs)"

definition broadcast_op_32 ::
  "(f32 \<Rightarrow> f32 \<Rightarrow> f32) \<Rightarrow> f32 list \<Rightarrow> f32 list \<Rightarrow> error + f32 list" where
  "broadcast_op_32 f xs ys =
     (if broadcastable (length xs) (length ys) then Inr (bc_32 f xs ys) else Inl RuntimeError)"

definition acc_loss_32 :: "int \<Rightarrow> tensor32 \<Rightarrow> nat \<Rightarrow> error + f32" where
  "acc_loss_32 y evidences classes =
     (let alpha_a = map (\<lambda>x. fadd x (Fin False 1)) (sum_dim0_32 evidences);
          S = fsum alpha_a;
          P = map (\<lambda>x. fdiv x S) alpha_a
      in case one_hot_32 y classes of
           Inl e \<Rightarrow> Inl e
         | Inr label \<Rightarrow>
             (case broadcast_op_32 fsub label P of
                Inl e \<Rightarrow> Inl e
              | Inr diff \<Rightarrow>
                  (let L_err = map (\<lambda>d. fmul d d) diff;
                       L_var = map (\<lambda>p. fdiv (fmul p (fsub (Fin False 1) p))
                                              (fadd S (Fin False 1))) P
                   in case broadcast_op_32 fadd L_err L_var of
                        Inl e \<Rightarrow> Inl e
                      | Inr t \<Rightarrow> Inr (fsum t))))"

section \<open>con\_loss\<close>

text \<open>
  Lines 34 to 38 for one row \<open>e\<close> of the evidence: \<open>alpha = e + 1\<close>, its sum \<open>S\<close>,
  \<open>B = e / S\<close>, \<open>U = classes / S\<close> and \<open>P = B + a * U\<close>. The prior \<open>a\<close> has shape
  \<open>(1, length a)\<close>, as \<open>forward\<close> builds it.
\<close>

definition view_P :: "real list \<Rightarrow> nat \<Rightarrow> real list \<Rightarrow> real list" where
  "view_P a classes e =
     (let alpha = map (\<lambda>x. x + 1) e;
          S = sum_list alpha;
          B = map (\<lambda>x. x / S) e;
          U = real classes / S
      in bc (\<lambda>b u. b + u) B (map (\<lambda>x. x * U) a))"

definition con_P :: "tensor2 \<Rightarrow> real list \<Rightarrow> nat \<Rightarrow> error + real list list" where
  "con_P evidences a classes =
     (if broadcastable (cols evidences) (length a)
      then Inr (map (view_P a classes) (rows evidences))
      else Inl RuntimeError)"

text \<open>\<open>-torch.sum(torch.mul(p, torch.log2(p)))\<close> of one row.\<close>

definition entropy :: "real list \<Rightarrow> real" where
  "entropy p = - sum_list (map (\<lambda>x. x * log 2 x) p)"

text \<open>
  Lines 45 to 47, the value \<open>E_mv\<close> of two rows that exist, and the same with the
  indexing: \<open>P[m]\<close>, \<open>P[v]\<close>, \<open>H[m]\<close> and \<open>H[v]\<close> raise when the index has no row.
\<close>

definition excess :: "real list list \<Rightarrow> real list \<Rightarrow> nat \<Rightarrow> nat \<Rightarrow> real" where
  "excess P H m v =
     (let P_mv = map (\<lambda>x. x / 2) (map2 (\<lambda>p q. p + q) (P ! m) (P ! v));
          H_mv = entropy P_mv
      in H_mv - H ! m / 2 - H ! v / 2)"

definition E_mv :: "real list list \<Rightarrow> real list \<Rightarrow> nat \<Rightarrow> nat \<Rightarrow> error + real" where
  "E_mv P H m v =
     (if m < length P \<and> v < length P then Inr (excess P H m v) else Inl IndexError)"

text \<open>The loop over \<open>v\<close> (lines 43 to 48), run on the indices still to visit.\<close>

fun inner_loop ::
  "real list list \<Rightarrow> real list \<Rightarrow> nat \<Rightarrow> nat list \<Rightarrow> real \<Rightarrow> error + real" where
  "inner_loop P H m [] sum_E = Inr sum_E"
| "inner_loop P H m (v # vs) sum_E =
     (if m \<noteq> v then
        (case E_mv P H m v of
           Inl e \<Rightarrow> Inl e
         | Inr E \<Rightarrow> inner_loop P H m vs (sum_E + E))
      else inner_loop P H m vs sum_E)"

text \<open>
  The loop over \<open>m\<close> (lines 41 to 50). With \<open>views = 1\<close> the inner loop adds nothing,
  \<open>sum_E\<close> is still the Python float \<open>0.0\<close> and \<open>0.0 / 0\<close> raises; with more views the
  divisor is not zero.
\<close>

fun outer_loop ::
  "real list list \<Rightarrow> real list \<Rightarrow> nat \<Rightarrow> nat list \<Rightarrow> real \<Rightarrow> error + real" where
  "outer_loop P H views [] L_con = Inr L_con"
| "outer_loop P H views (m # ms) L_con =
     (case inner_loop P H m [0..<views] 0 of
        Inl e \<Rightarrow> Inl e
      | Inr sum_E \<Rightarrow>
          if int views - 1 = 0 then Inl ZeroDivisionError
          else outer_loop P H views ms (L_con + sum_E / real_of_int (int views - 1)))"

definition con_loss :: "tensor2 \<Rightarrow> real list \<Rightarrow> nat \<Rightarrow> nat \<Rightarrow> error + real" where
  "con_loss evidences a views classes =
     (case con_P evidences a classes of
        Inl e \<Rightarrow> Inl e
      | Inr P \<Rightarrow>
          (let H = map entropy P
           in outer_loop P H views [0..<views] 0))"

section \<open>Classifier and TMDLO\<close>

text \<open>
  A layer of \<open>Classifier.fc\<close>: \<open>nn.Linear\<close> with its input size, its weight (one row
  per output) and its bias, or \<open>nn.Softplus\<close>. The weights are whatever training has
  made them, so they are data of the model.
\<close>

datatype layer = Linear nat "real list list" "real list" | Softplus

definition linear :: "nat \<Rightarrow> real list list \<Rightarrow> real list \<Rightarrow> real list \<Rightarrow> error + real list" where
  "linear in_features weight bias x =
     (if length x = in_features
      then Inr (map2 (\<lambda>w b. sum_list (map2 (\<lambda>c d. c * d) w x) + b) weight bias)
      else Inl RuntimeError)"

text \<open>\<open>nn.Softplus()\<close> has \<open>beta = 1\<close> and \<open>threshold = 20\<close>: above the threshold it is linear.\<close>

definition softplus :: "real \<Rightarrow> real" where
  "softplus x = (if x > 20 then x else ln (1 + exp x))"

fun apply_layer :: "layer \<Rightarrow> real list \<Rightarrow> error + real list" where
  "apply_layer (Linear in_features weight bias) x = linear in_features weight bias x"
| "apply_layer Softplus x = Inr (map softplus x)"

fun apply_layers :: "layer list \<Rightarrow> real list \<Rightarrow> error + real list" where
  "apply_layers [] h = Inr h"
| "apply_layers (l # ls) h =
     (case apply_layer l h of Inl e \<Rightarrow> Inl e | Inr h' \<Rightarrow> apply_layers ls h')"

text \<open>\<open>Classifier.forward\<close>: \<open>fc[0]\<close> on the input, then the other layers in order.\<close>

definition Classifier_forward :: "layer list \<Rightarrow> real list \<Rightarrow> error + real list" where
  "Classifier_forward fc x =
     (case fc of
        [] \<Rightarrow> Inl IndexError
      | l # ls \<Rightarrow> (case apply_layer l x of Inl e \<Rightarrow> Inl e | Inr h \<Rightarrow> apply_layers ls h))"

record TMDLO =
  views :: nat
  classes :: nat
  lambda_con :: real
  Classifiers :: "layer list list"

text \<open>
  The loop of \<open>infer\<close> on the rows of \<open>evidences\<close>. \<open>Classifiers[v_num]\<close> and
  \<open>X[v_num]\<close> raise when the index is out of range; the assignment to
  \<open>evidences[v_num]\<close> takes a vector of \<open>classes\<close> entries, or one entry, repeated.
\<close>

fun infer_loop ::
  "TMDLO \<Rightarrow> real list list \<Rightarrow> nat list \<Rightarrow> real list list \<Rightarrow> error + real list list" where
  "infer_loop M X [] evidences = Inr evidences"
| "infer_loop M X (v_num # vs) evidences =
     (if length (Classifiers M) \<le> v_num \<or> length X \<le> v_num then Inl IndexError
      else
        (case Classifier_forward (Classifiers M ! v_num) (X ! v_num) of
           Inl e \<Rightarrow> Inl e
         | Inr out \<Rightarrow>
             if length out = classes M
             then infer_loop M X vs (evidences[v_num := out])
             else if length out = 1
             then infer_loop M X vs (evidences[v_num := replicate (classes M) (hd out)])
             else Inl RuntimeError))"

definition infer :: "TMDLO \<Rightarrow> real list list \<Rightarrow> error + tensor2" where
  "infer M X =
     (case infer_loop M X [0..<views M] (replicate (views M) (replicate (classes M) 0)) of
        Inl e \<Rightarrow> Inl e
      | Inr evidences \<Rightarrow> Inr \<lparr>cols = classes M, rows = evidences\<rparr>)"

text \<open>Lines 90 to 94 of \<open>forward\<close>: the two losses and their weighted sum.\<close>

definition total_loss ::
  "real \<Rightarrow> int \<Rightarrow> tensor2 \<Rightarrow> real list \<Rightarrow> nat \<Rightarrow> nat \<Rightarrow> error + real" where
  "total_loss lam y evidences a views' classes' =
     (case acc_loss y evidences classes' of
        Inl e \<Rightarrow> Inl e
      | Inr L_acc \<Rightarrow>
          (case con_loss evidences a views' classes' of
             Inl e \<Rightarrow> Inl e
           | Inr L_con \<Rightarrow> Inr (0 + (L_acc + lam * L_con))))"

definition forward :: "TMDLO \<Rightarrow> real list list \<Rightarrow> int \<Rightarrow> error + real" where
  "forward M X y =
     (case infer M X of
        Inl e \<Rightarrow> Inl e
      | Inr evidences \<Rightarrow>
          (let a = replicate (classes M) (1 / real (classes M))
           in total_loss (lambda_con M) y evidences a (views M) (classes M)))"

section \<open>The specification's formulas and the predicates of the statements\<close>

text \<open>
  The accuracy loss as section 4.3 of the specification words it, on the entries of the
  evidence matrix: \<open>alpha_a\<close> is the sum of the evidence over the views plus 1, \<open>S\<close> its
  sum over the classes, \<open>P = alpha_a / S\<close>, and the loss is the sum over the classes of
  \<open>(one_hot(y) - P)^2 + P * (1 - P) / (S + 1)\<close>.
\<close>

definition spec_alpha_a :: "tensor2 \<Rightarrow> nat \<Rightarrow> real" where
  "spec_alpha_a ev k = (\<Sum>v<length (rows ev). rows ev ! v ! k) + 1"

definition spec_S :: "tensor2 \<Rightarrow> nat \<Rightarrow> real" where
  "spec_S ev C = (\<Sum>k<C. spec_alpha_a ev k)"

definition spec_P :: "tensor2 \<Rightarrow> nat \<Rightarrow> nat \<Rightarrow> real" where
  "spec_P ev C k = spec_alpha_a ev k / spec_S ev C"

definition spec_acc_loss :: "int \<Rightarrow> tensor2 \<Rightarrow> nat \<Rightarrow> real" where
  "spec_acc_loss y ev C =
     (\<Sum>k<C. ((if int k = y then 1 else 0) - spec_P ev C k) ^ 2
               + spec_P ev C k * (1 - spec_P ev C k) / (spec_S ev C + 1))"

text \<open>An evidence matrix whose entries are all zero.\<close>

definition all_zero :: "tensor2 \<Rightarrow> bool" where
  "all_zero T = list_all (list_all (\<lambda>x. x = 0)) (rows T)"

text \<open>
  The consistency loss as section 4.4 of the specification words it, on the values
  \<open>E m v\<close>: for each view \<open>m\<close> the average of \<open>E m v\<close> over the \<open>V - 1\<close> other views,
  summed over \<open>m\<close>; and the sum that counts each unordered pair of views once.
\<close>

definition spec_L_con :: "(nat \<Rightarrow> nat \<Rightarrow> real) \<Rightarrow> nat \<Rightarrow> real" where
  "spec_L_con E V = (\<Sum>m<V. (\<Sum>v\<in>{..<V} - {m}. E m v) / (real V - 1))"

definition single_count :: "(nat \<Rightarrow> nat \<Rightarrow> real) \<Rightarrow> nat \<Rightarrow> real" where
  "single_count E V = (\<Sum>v<V. \<Sum>m<v. E m v)"

text \<open>The share of one class in \<open>E_mv\<close>, for the probabilities \<open>x\<close> and \<open>y\<close> of two views.\<close>

definition js_term :: "real \<Rightarrow> real \<Rightarrow> real" where
  "js_term x y = x * log 2 x / 2 + y * log 2 y / 2 - (x + y) / 2 * log 2 ((x + y) / 2)"

text \<open>
  The views of an evidence matrix taken in another order: row \<open>i\<close> of the result is row
  \<open>p ! i\<close> of the matrix. \<open>p\<close> is a permutation of the views when it lists every index
  below the number of rows once.
\<close>

definition permute_views :: "nat list \<Rightarrow> tensor2 \<Rightarrow> tensor2" where
  "permute_views p ev = ev\<lparr>rows := map (\<lambda>i. rows ev ! i) p\<rparr>"

text \<open>The same on a float32 tensor.\<close>

definition permute_views_32 :: "nat list \<Rightarrow> tensor32 \<Rightarrow> tensor32" where
  "permute_views_32 p ev = ev\<lparr>rows32 := map (\<lambda>i. rows32 ev ! i) p\<rparr>"

text \<open>
  A model of two views and two classes whose classifiers have one linear layer with zero
  weights and the bias 21, on features of one dimension: every view's evidence is
  \<open>[21, 21]\<close>, since \<open>Softplus\<close> is linear above its threshold.
\<close>

definition two_view_model :: TMDLO where
  "two_view_model =
     \<lparr>views = 2, classes = 2, lambda_con = 1,
      Classifiers = [[Linear 1 [[0], [0]] [21, 21], Softplus],
                     [Linear 1 [[0], [0]] [21, 21], Softplus]]\<rparr>"

section \<open>Shapes and sums\<close>

lemma length_sum_dim0 [simp]: "length (sum_dim0 T) = cols T"
  by (simp add: sum_dim0_def)

lemma length_alpha_a_of [simp]: "length (alpha_a_of T) = cols T"
  by (simp add: alpha_a_of_def)

lemma length_P_of [simp]: "length (P_of T) = cols T"
  by (simp add: P_of_def)

lemma sum_list_upt_sum: "sum_list (map f [0..<n]) = (\<Sum>k<n. f k)"
  by (simp add: interv_sum_list_conv_sum_set_nat atLeast0LessThan)

lemma sum_list_nth_sum: "sum_list xs = (\<Sum>k<length xs. xs ! k)"
  by (simp add: sum_list_sum_nth atLeast0LessThan)

lemma map2_upt: "length xs = n \<Longrightarrow> length ys = n \<Longrightarrow> map2 f xs ys = map (\<lambda>k. f (xs ! k) (ys ! k)) [0..<n]"
  by (auto simp: list_eq_iff_nth_eq)

lemma alpha_a_nth: "k < cols T \<Longrightarrow> alpha_a_of T ! k = sum_list (map (\<lambda>r. r ! k) (rows T)) + 1"
  by (simp add: alpha_a_of_def sum_dim0_def)

lemma alpha_a_spec: "k < cols T \<Longrightarrow> alpha_a_of T ! k = spec_alpha_a T k"
  by (simp add: alpha_a_nth spec_alpha_a_def sum_list_nth_sum)

lemma S_spec: "S_of T = spec_S T (cols T)"
  by (simp add: S_of_def spec_S_def sum_list_nth_sum alpha_a_spec)

lemma P_spec: "k < cols T \<Longrightarrow> P_of T ! k = spec_P T (cols T) k"
  by (simp add: P_of_def spec_P_def S_spec alpha_a_spec)

lemma acc_loss_value:
  assumes "cols ev = C" "0 \<le> y" "y < int C"
  shows "acc_loss y ev C =
     Inr (\<Sum>k<C. ((if int k = y then 1 else 0) - P_of ev ! k) ^ 2
               + P_of ev ! k * (1 - P_of ev ! k) / (S_of ev + 1))"
  using assms
  by (simp add: acc_loss_def Let_def one_hot_def broadcast_op_def broadcastable_def bc_def
      map2_upt[where n=C] sum_list_upt_sum)

section \<open>The accuracy loss is the specification's formula\<close>

text \<open>
  C1: for an evidence matrix of \<open>C\<close> columns with non-negative entries, a label
  \<open>0 \<le> y < C\<close> and \<open>C \<ge> 2\<close>, \<open>acc_loss\<close> returns the sum over the classes of
  \<open>(one_hot(y) - P)^2 + P * (1 - P) / (S + 1)\<close>, where \<open>alpha_a\<close> is the sum of the evidence
  over the views plus 1, \<open>S\<close> the sum of \<open>alpha_a\<close> and \<open>P = alpha_a / S\<close>.
\<close>

theorem acc_loss_refines_spec:
  assumes "wf_tensor ev" "cols ev = C" "nonneg ev" "0 \<le> y" "y < int C" "2 \<le> C"
  shows "acc_loss y ev C = Inr (spec_acc_loss y ev C)"
  using assms by (simp add: acc_loss_value spec_acc_loss_def P_spec S_spec)

theorem acc_loss_refines_spec_witness:
  "acc_loss 1 \<lparr>cols = 2, rows = [[1, 0], [2, 3]]\<rparr> 2
     = Inr (spec_acc_loss 1 \<lparr>cols = 2, rows = [[1, 0], [2, 3]]\<rparr> 2)"
  using acc_loss_refines_spec [of "\<lparr>cols = 2, rows = [[1, 0], [2, 3]]\<rparr>" 2 1]
  by (simp add: wf_tensor_def nonneg_def)

section \<open>The fused prediction is a distribution\<close>

lemma sum_dim0_nonneg:
  assumes "wf_tensor T" "nonneg T" "k < cols T"
  shows "0 \<le> sum_dim0 T ! k"
proof -
  have "0 \<le> r ! k" if "r \<in> set (rows T)" for r
  proof -
    from that assms have "length r = cols T" "list_all (\<lambda>x. 0 \<le> x) r"
      by (auto simp: wf_tensor_def nonneg_def list_all_iff)
    with assms(3) show ?thesis by (simp add: list_all_length)
  qed
  then have "0 \<le> sum_list (map (\<lambda>r. r ! k) (rows T))"
    by (intro sum_list_nonneg) auto
  with assms(3) show ?thesis by (simp add: sum_dim0_def)
qed

lemma alpha_a_ge_1:
  assumes "wf_tensor T" "nonneg T" "k < cols T"
  shows "1 \<le> alpha_a_of T ! k"
  using sum_dim0_nonneg[OF assms] assms(3) by (simp add: alpha_a_of_def)

lemma S_of_ge_cols:
  assumes "wf_tensor T" "nonneg T"
  shows "real (cols T) \<le> S_of T"
proof -
  have "(\<Sum>k<cols T. 1) \<le> (\<Sum>k<cols T. alpha_a_of T ! k)"
    by (intro sum_mono) (simp add: alpha_a_ge_1[OF assms])
  then show ?thesis by (simp add: S_of_def sum_list_nth_sum)
qed

lemma S_of_pos:
  assumes "wf_tensor T" "nonneg T" "1 \<le> cols T"
  shows "0 < S_of T"
  using S_of_ge_cols[OF assms(1,2)] assms(3) by linarith

text \<open>
  C3: for an evidence matrix with non-negative entries and at least one class, the fused
  prediction \<open>P = alpha_a / S\<close> of \<open>acc_loss\<close> sums to 1 and each of its entries is
  strictly positive.
\<close>

theorem fused_P_distribution:
  assumes "wf_tensor ev" "nonneg ev" "cols ev = C" "1 \<le> C"
  shows "sum_list (P_of ev) = 1 \<and> list_all (\<lambda>p. 0 < p) (P_of ev)"
proof -
  have S: "0 < S_of ev" using S_of_pos assms by simp
  have "sum_list (P_of ev) = sum_list (alpha_a_of ev) / S_of ev"
    by (simp add: P_of_def sum_list_nth_sum sum_divide_distrib)
  also have "\<dots> = 1" using S by (simp add: S_of_def)
  finally have one: "sum_list (P_of ev) = 1" .
  have "0 < P_of ev ! k" if "k < cols ev" for k
    using alpha_a_ge_1[OF assms(1,2) that] S that by (simp add: P_of_def)
  then have "list_all (\<lambda>p. 0 < p) (P_of ev)"
    by (simp add: list_all_length)
  with one show ?thesis by simp
qed

theorem fused_P_distribution_witness:
  "sum_list (P_of \<lparr>cols = 2, rows = [[1, 0], [2, 3]]\<rparr>) = 1
   \<and> list_all (\<lambda>p. 0 < p) (P_of \<lparr>cols = 2, rows = [[1, 0], [2, 3]]\<rparr>)"
  using fused_P_distribution [of "\<lparr>cols = 2, rows = [[1, 0], [2, 3]]\<rparr>" 2]
  by (simp add: wf_tensor_def nonneg_def)

section \<open>Zero evidence gives the uniform prediction\<close>

lemma sum_list_zero: "(\<And>x. x \<in> set xs \<Longrightarrow> f x = (0::real)) \<Longrightarrow> sum_list (map f xs) = 0"
  by (induction xs) auto

lemma sum_dim0_all_zero:
  assumes "wf_tensor T" "all_zero T"
  shows "sum_dim0 T = replicate (cols T) 0"
proof -
  have "r ! k = 0" if "r \<in> set (rows T)" "k < cols T" for r k
  proof -
    from that assms have "length r = cols T" "list_all (\<lambda>x. x = 0) r"
      by (auto simp: wf_tensor_def all_zero_def list_all_iff)
    with that(2) show ?thesis by (simp add: list_all_length)
  qed
  then have "sum_list (map (\<lambda>r. r ! k) (rows T)) = 0" if "k < cols T" for k
    using that by (intro sum_list_zero) simp
  then show ?thesis
    by (auto simp: sum_dim0_def list_eq_iff_nth_eq)
qed

text \<open>
  C5: with at least one view and at least one class, when every entry of the evidence
  matrix is zero the fused prediction of \<open>acc_loss\<close> is \<open>1 / C\<close> in every component.
\<close>

theorem zero_evidence_uniform:
  assumes "wf_tensor ev" "cols ev = C" "length (rows ev) = V" "1 \<le> V" "1 \<le> C" "all_zero ev"
  shows "P_of ev = replicate C (1 / real C)"
proof -
  have a: "alpha_a_of ev = replicate C 1"
    using assms by (simp add: alpha_a_of_def sum_dim0_all_zero)
  then have "S_of ev = real C" by (simp add: S_of_def sum_list_replicate)
  with a show ?thesis by (simp add: P_of_def)
qed

theorem zero_evidence_uniform_witness:
  "P_of \<lparr>cols = 3, rows = [[0, 0, 0], [0, 0, 0]]\<rparr> = replicate 3 (1 / real 3)"
  using zero_evidence_uniform [of "\<lparr>cols = 3, rows = [[0, 0, 0], [0, 0, 0]]\<rparr>" 3 2]
  by (simp add: wf_tensor_def all_zero_def)

section \<open>The accuracy loss on the all-zero evidence of two views and two classes\<close>

text \<open>
  C6: with two views, two classes, the evidence \<open>[[0,0],[0,0]]\<close> and the label 0,
  \<open>acc_loss\<close> computes \<open>alpha_a = [1,1]\<close>, \<open>S = 2\<close>, \<open>P = [1/2,1/2]\<close> and returns
  \<open>2 * ((1/2)^2 + (1/2) * (1/2) / 3)\<close>, which is \<open>2/3\<close>.
\<close>

theorem acc_loss_zero_2x2:
  "alpha_a_of \<lparr>cols = 2, rows = [[0, 0], [0, 0]]\<rparr> = [1, 1]
   \<and> S_of \<lparr>cols = 2, rows = [[0, 0], [0, 0]]\<rparr> = 2
   \<and> P_of \<lparr>cols = 2, rows = [[0, 0], [0, 0]]\<rparr> = [1 / 2, 1 / 2]
   \<and> acc_loss 0 \<lparr>cols = 2, rows = [[0, 0], [0, 0]]\<rparr> 2
       = Inr (2 * ((1 / 2) ^ 2 + (1 / 2) * (1 / 2) / 3))
   \<and> acc_loss 0 \<lparr>cols = 2, rows = [[0, 0], [0, 0]]\<rparr> 2 = Inr (2 / 3)"
proof -
  let ?T = "\<lparr>cols = 2, rows = [[0, 0], [0, 0]]\<rparr> :: tensor2"
  have u: "[0..<2] = [0, Suc 0]"
    by (simp add: upt_rec)
  have a: "alpha_a_of ?T = [1, 1]"
    by (simp add: alpha_a_of_def sum_dim0_def u)
  have s: "S_of ?T = 2"
    by (simp add: S_of_def a)
  have p: "P_of ?T = [1 / 2, 1 / 2]"
    by (simp add: P_of_def a s)
  have l: "acc_loss 0 ?T 2 = Inr (2 / 3)"
    by (simp add: acc_loss_def Let_def one_hot_def broadcast_op_def broadcastable_def
        bc_def a s p u power2_eq_square)
  show ?thesis
    using a s p l by (simp add: power2_eq_square)
qed

section \<open>The accuracy loss reads the evidence through its column sums\<close>

text \<open>
  C10: two evidence matrices with the same sums over the views axis, whatever their
  numbers of views, have the same \<open>acc_loss\<close> for every label: the loss uses neither
  the number of views nor the evidence of a single view.
\<close>

theorem acc_loss_column_sums:
  assumes "sum_dim0 ev = sum_dim0 ev'"
  shows "acc_loss y ev C = acc_loss y ev' C"
  using assms by (simp add: acc_loss_def P_of_def S_of_def alpha_a_of_def)

theorem acc_loss_column_sums_witness:
  "acc_loss 1 \<lparr>cols = 2, rows = [[1, 2]]\<rparr> 2 = acc_loss 1 \<lparr>cols = 2, rows = [[1, 0], [0, 2]]\<rparr> 2"
proof -
  have "sum_dim0 \<lparr>cols = 2, rows = [[1, 2]]\<rparr> = sum_dim0 \<lparr>cols = 2, rows = [[1, 0], [0, 2]]\<rparr>"
    by (simp add: sum_dim0_def upt_rec)
  then show ?thesis by (rule acc_loss_column_sums)
qed

section \<open>Evaluating the binary32 accuracy loss\<close>

lemma pow2_powr: "pow2 q = 2 powr (real_of_int q)"
  by (simp add: pow2_def powr_int)

lemma pow2_pos: "0 < pow2 q"
  by (simp add: pow2_def)

text \<open>
  Rounding a magnitude \<open>m\<close> with \<open>2 ^ e \<le> m < 2 ^ (e + 1)\<close>: the last place is
  \<open>q = max (e - 23) (- 149)\<close> and the result is the multiple of \<open>2 ^ q\<close> nearest to \<open>m\<close>.
\<close>

lemma round_mag_eval:
  assumes "pow2 e \<le> m" "m < pow2 (e + 1)" "q = max (e - 23) (- 149)"
    and "rne (m / pow2 q) = n"
  shows "round_mag m = of_int n * pow2 q"
proof -
  have m: "0 < m" using assms(1) pow2_pos[of e] by linarith
  have "\<lfloor>log 2 m\<rfloor> = e"
    using assms(1,2) m by (simp add: floor_log_eq_powr_iff pow2_powr)
  then show ?thesis
    using assms(3,4) by (simp add: round_mag_def)
qed

lemma round32_eval:
  assumes "pow2 e \<le> m" "m < pow2 (e + 1)" "q = max (e - 23) (- 149)"
    and "rne (m / pow2 q) = n" "of_int n * pow2 q = y" "y < 2 ^ 128"
  shows "round32 s m = Fin s y"
  using round_mag_eval[OF assms(1-4)] assms(5,6) by (simp add: round32_def)

text \<open>The roundings that the four evaluations below go through.\<close>

lemma rnd_0: "round32 s (1 / 1496577676626844588240573268701473812127674924007424) = Fin s 0"
  by (rule round32_eval[where e = "- 170" and q = "- 149" and n = "0"])
     (simp_all add: pow2_def rne_def)

lemma rnd_1: "round32 s (1 / 374144419156711147060143317175368453031918731001856) = Fin s 0"
  by (rule round32_eval[where e = "- 168" and q = "- 149" and n = "0"])
     (simp_all add: pow2_def rne_def)

lemma rnd_2: "round32 s (1 / 38685626227668133590597632) = Fin s (1 / 38685626227668133590597632)"
  by (rule round32_eval[where e = "- 85" and q = "- 108" and n = "8388608"])
     (simp_all add: pow2_def rne_def)

lemma rnd_3: "round32 s (1 / 19342813113834066795298816) = Fin s (1 / 19342813113834066795298816)"
  by (rule round32_eval[where e = "- 84" and q = "- 107" and n = "8388608"])
     (simp_all add: pow2_def rne_def)

lemma rnd_4: "round32 s (16777211 / 4722367608769552056320) = Fin s (16777207 / 4722366482869645213696)"
  by (rule round32_eval[where e = "- 49" and q = "- 72" and n = "16777207"])
     (simp_all add: pow2_def rne_def)

lemma rnd_5: "round32 s (17592177655809 / 4951760157141521099596496896) = Fin s (2097151 / 590295810358705651712)"
  by (rule round32_eval[where e = "- 49" and q = "- 72" and n = "16777208"])
     (simp_all add: pow2_def rne_def)

lemma rnd_6: "round32 s (16777215 / 4722366482869645213696) = Fin s (16777215 / 4722366482869645213696)"
  by (rule round32_eval[where e = "- 49" and q = "- 72" and n = "16777215"])
     (simp_all add: pow2_def rne_def)

lemma rnd_7: "round32 s (1 / 281474976710656) = Fin s (1 / 281474976710656)"
  by (rule round32_eval[where e = "- 48" and q = "- 71" and n = "8388608"])
     (simp_all add: pow2_def rne_def)

lemma rnd_8: "round32 s (33554415 / 4722366482869645213696) = Fin s (2097151 / 295147905179352825856)"
  by (rule round32_eval[where e = "- 48" and q = "- 71" and n = "16777208"])
     (simp_all add: pow2_def rne_def)

lemma rnd_9: "round32 s (2097151 / 295147905179352825856) = Fin s (2097151 / 295147905179352825856)"
  by (rule round32_eval[where e = "- 48" and q = "- 71" and n = "16777208"])
     (simp_all add: pow2_def rne_def)

lemma rnd_10: "round32 s (33554431 / 4722366482869645213696) = Fin s (1 / 140737488355328)"
  by (rule round32_eval[where e = "- 48" and q = "- 71" and n = "16777216"])
     (simp_all add: pow2_def rne_def)

lemma rnd_11: "round32 s (1 / 140737488355328) = Fin s (1 / 140737488355328)"
  by (rule round32_eval[where e = "- 47" and q = "- 70" and n = "8388608"])
     (simp_all add: pow2_def rne_def)

lemma rnd_12: "round32 s (70368723206145 / 1180591620717411303424) = Fin s (16777211 / 281474976710656)"
  by (rule round32_eval[where e = "- 25" and q = "- 48" and n = "16777211"])
     (simp_all add: pow2_def rne_def)

lemma rnd_13: "round32 s (4194303 / 70368744177664) = Fin s (4194303 / 70368744177664)"
  by (rule round32_eval[where e = "- 25" and q = "- 48" and n = "16777212"])
     (simp_all add: pow2_def rne_def)

lemma rnd_14: "round32 s (1 / 16777220) = Fin s (4194303 / 70368744177664)"
  by (rule round32_eval[where e = "- 25" and q = "- 48" and n = "16777212"])
     (simp_all add: pow2_def rne_def)

lemma rnd_15: "round32 s (16777215 / 281474976710656) = Fin s (16777215 / 281474976710656)"
  by (rule round32_eval[where e = "- 25" and q = "- 48" and n = "16777215"])
     (simp_all add: pow2_def rne_def)

lemma rnd_16: "round32 s (1 / 16777216) = Fin s (1 / 16777216)"
  by (rule round32_eval[where e = "- 24" and q = "- 47" and n = "8388608"])
     (simp_all add: pow2_def rne_def)

lemma rnd_17: "round32 s (16777215 / 16777216) = Fin s (16777215 / 16777216)"
  by (rule round32_eval[where e = "- 1" and q = "- 24" and n = "16777215"])
     (simp_all add: pow2_def rne_def)

lemma rnd_18: "round32 s (70368739983361 / 70368744177664) = Fin s (16777215 / 16777216)"
  by (rule round32_eval[where e = "- 1" and q = "- 24" and n = "16777215"])
     (simp_all add: pow2_def rne_def)

lemma rnd_19: "round32 s (19342813113834066795298815 / 19342813113834066795298816) = Fin s (1)"
  by (rule round32_eval[where e = "- 1" and q = "- 24" and n = "16777216"])
     (simp_all add: pow2_def rne_def)

lemma rnd_20: "round32 s (38685626227668133590597631 / 38685626227668133590597632) = Fin s (1)"
  by (rule round32_eval[where e = "- 1" and q = "- 24" and n = "16777216"])
     (simp_all add: pow2_def rne_def)

lemma rnd_21: "round32 s (1) = Fin s (1)"
  by (rule round32_eval[where e = "0" and q = "- 23" and n = "8388608"])
     (simp_all add: pow2_def rne_def)

lemma rnd_22: "round32 s (2) = Fin s (2)"
  by (rule round32_eval[where e = "1" and q = "- 22" and n = "8388608"])
     (simp_all add: pow2_def rne_def)

lemma rnd_23: "round32 s (16777216) = Fin s (16777216)"
  by (rule round32_eval[where e = "24" and q = "1" and n = "8388608"])
     (simp_all add: pow2_def rne_def)

lemma rnd_24: "round32 s (16777217) = Fin s (16777216)"
  by (rule round32_eval[where e = "24" and q = "1" and n = "8388608"])
     (simp_all add: pow2_def rne_def)

lemma rnd_25: "round32 s (16777218) = Fin s (16777218)"
  by (rule round32_eval[where e = "24" and q = "1" and n = "8388609"])
     (simp_all add: pow2_def rne_def)

lemma rnd_26: "round32 s (16777219) = Fin s (16777220)"
  by (rule round32_eval[where e = "24" and q = "1" and n = "8388610"])
     (simp_all add: pow2_def rne_def)

lemma rnd_27: "round32 s (16777220) = Fin s (16777220)"
  by (rule round32_eval[where e = "24" and q = "1" and n = "8388610"])
     (simp_all add: pow2_def rne_def)

lemma rnd_28: "round32 s (16777221) = Fin s (16777220)"
  by (rule round32_eval[where e = "24" and q = "1" and n = "8388610"])
     (simp_all add: pow2_def rne_def)

lemma rnd_29: "round32 s (19342813113834066795298816) = Fin s (19342813113834066795298816)"
  by (rule round32_eval[where e = "84" and q = "61" and n = "8388608"])
     (simp_all add: pow2_def rne_def)

lemma rnd_30: "round32 s (19342813113834066795298817) = Fin s (19342813113834066795298816)"
  by (rule round32_eval[where e = "84" and q = "61" and n = "8388608"])
     (simp_all add: pow2_def rne_def)

lemma rnd_31: "round32 s (38685626227668133590597632) = Fin s (38685626227668133590597632)"
  by (rule round32_eval[where e = "85" and q = "62" and n = "8388608"])
     (simp_all add: pow2_def rne_def)

lemma rnd_32: "round32 s (38685626227668133590597633) = Fin s (38685626227668133590597632)"
  by (rule round32_eval[where e = "85" and q = "62" and n = "8388608"])
     (simp_all add: pow2_def rne_def)

lemmas rnd =
  rnd_0 rnd_1 rnd_2 rnd_3 rnd_4 rnd_5 rnd_6 rnd_7 rnd_8 rnd_9
  rnd_10 rnd_11 rnd_12 rnd_13 rnd_14 rnd_15 rnd_16 rnd_17 rnd_18 rnd_19
  rnd_20 rnd_21 rnd_22 rnd_23 rnd_24 rnd_25 rnd_26 rnd_27 rnd_28 rnd_29
  rnd_30 rnd_31 rnd_32

lemma acc_loss_32_zero_84:
  "acc_loss_32 0
     \<lparr>cols32 = 2, rows32 = [[Fin False 19342813113834066795298816, Fin False 0]]\<rparr> 2
     = Inr (Fin False 0)"
  by (simp add: acc_loss_32_def sum_dim0_32_def fsum_def one_hot_32_def broadcast_op_32_def
      bc_32_def broadcastable_def fsub_def valof_def Let_def upt_rec rnd)

lemma acc_loss_32_zero_85:
  "acc_loss_32 0
     \<lparr>cols32 = 2, rows32 = [[Fin False 38685626227668133590597632, Fin False 0]]\<rparr> 2
     = Inr (Fin False 0)"
  by (simp add: acc_loss_32_def sum_dim0_32_def fsum_def one_hot_32_def broadcast_op_32_def
      bc_32_def broadcastable_def fsub_def valof_def Let_def upt_rec rnd)

lemma acc_loss_32_order_a:
  "acc_loss_32 0
     \<lparr>cols32 = 2, rows32 = [[Fin False 1, Fin False 0], [Fin False 1, Fin False 0], [Fin False 16777216, Fin False 0]]\<rparr> 2
     = Inr (Fin False (2097151 / 295147905179352825856))"
  by (simp add: acc_loss_32_def sum_dim0_32_def fsum_def one_hot_32_def broadcast_op_32_def
      bc_32_def broadcastable_def fsub_def valof_def Let_def upt_rec rnd)

lemma acc_loss_32_order_b:
  "acc_loss_32 0
     \<lparr>cols32 = 2, rows32 = [[Fin False 1, Fin False 0], [Fin False 16777216, Fin False 0], [Fin False 1, Fin False 0]]\<rparr> 2
     = Inr (Fin False (1 / 140737488355328))"
  by (simp add: acc_loss_32_def sum_dim0_32_def fsum_def one_hot_32_def broadcast_op_32_def
      bc_32_def broadcastable_def fsub_def valof_def Let_def upt_rec rnd)

section \<open>The accuracy loss decreases in the evidence of the true class\<close>

lemma P_of_nth: "k < cols T \<Longrightarrow> P_of T ! k = alpha_a_of T ! k / S_of T"
  by (simp add: P_of_def)

lemma acc_term:
  fixes l p S :: real
  assumes "S + 1 \<noteq> 0"
  shows "(l - p) ^ 2 + p * (1 - p) / (S + 1) = l ^ 2 - 2 * (l * p) + (S * p ^ 2 + p) / (S + 1)"
proof -
  have "1 + S \<noteq> 0" using assms by (simp add: add.commute)
  then show ?thesis
    by (simp add: field_simps power2_eq_square)
qed

lemma acc_closed_alg:
  fixes s t N :: real
  assumes "0 < s"
  shows "1 - 2 * (t / s) + (s * (N / s ^ 2) + 1) / (s + 1)
       = ((s - t) ^ 2 + 2 * (s - t) + (N - t ^ 2)) / (s * (s + 1))"
proof -
  have D: "s * (s + 1) \<noteq> 0" using assms by simp
  have 1: "t / s * (s * (s + 1)) = t * (s + 1)" using assms by simp
  have 2: "s * (N / s ^ 2) = N / s" using assms by (simp add: power2_eq_square)
  have "(N / s + 1) / (s + 1) * (s * (s + 1)) = (N / s + 1) * s"
    using assms by simp
  also have "\<dots> = N + s"
    using assms by (simp add: distrib_right)
  finally have 3: "(N / s + 1) / (s + 1) * (s * (s + 1)) = N + s" .
  have "(1 - 2 * (t / s) + (s * (N / s ^ 2) + 1) / (s + 1)) * (s * (s + 1))
      = s * (s + 1) - 2 * (t / s * (s * (s + 1))) + (N / s + 1) / (s + 1) * (s * (s + 1))"
    by (simp only: 2 distrib_right left_diff_distrib mult.assoc)
  also have "\<dots> = (s - t) ^ 2 + 2 * (s - t) + (N - t ^ 2)"
    by (simp only: 1 3) (simp add: algebra_simps power2_eq_square)
  finally have "(1 - 2 * (t / s) + (s * (N / s ^ 2) + 1) / (s + 1)) * (s * (s + 1))
      = (s - t) ^ 2 + 2 * (s - t) + (N - t ^ 2)" .
  then show ?thesis
    using nonzero_eq_divide_eq[OF D] by blast
qed

lemma acc_loss_closed:
  assumes C: "cols ev = C" and y: "0 \<le> y" "y < int C" and S: "0 < S_of ev"
  shows "acc_loss y ev C =
     Inr (((S_of ev - alpha_a_of ev ! nat y) ^ 2 + 2 * (S_of ev - alpha_a_of ev ! nat y)
           + ((\<Sum>k<C. (alpha_a_of ev ! k) ^ 2) - (alpha_a_of ev ! nat y) ^ 2))
          / (S_of ev * (S_of ev + 1)))"
proof -
  define a where "a k = alpha_a_of ev ! k" for k
  define l :: "nat \<Rightarrow> real" where "l k = (if int k = y then 1 else 0)" for k
  define s where "s = S_of ev"
  define N where "N = (\<Sum>k<C. (a k) ^ 2)"
  have s0: "s \<noteq> 0" "s + 1 \<noteq> 0" "0 < s" using S by (simp_all add: s_def)
  have ny: "nat y < C" using y by simp
  have ly: "l k = (if k = nat y then 1 else 0)" for k
    using y by (auto simp: l_def)
  have l1: "(\<Sum>k<C. (l k) ^ 2) = 1"
    using ny by (simp add: ly if_distrib[of "\<lambda>x. x ^ 2"] cong: if_cong)
  have "(\<Sum>k<C. l k * a k) = a (nat y)"
    using ny by (simp add: ly if_distrib[of "\<lambda>x. x * _"] cong: if_cong)
  then have l2: "(\<Sum>k<C. l k * (a k / s)) = a (nat y) / s"
    by (simp add: sum_divide_distrib[symmetric])
  have sa: "(\<Sum>k<C. a k) / s = 1"
    using C s0 by (simp add: s_def S_of_def a_def sum_list_nth_sum)
  have sq: "(\<Sum>k<C. (a k / s) ^ 2) = N / s ^ 2"
    by (simp add: N_def power_divide sum_divide_distrib)
  have "acc_loss y ev C = Inr (\<Sum>k<C. (l k - a k / s) ^ 2 + a k / s * (1 - a k / s) / (s + 1))"
    using C y by (simp add: acc_loss_value l_def a_def s_def P_of_nth)
  also have "(\<Sum>k<C. (l k - a k / s) ^ 2 + a k / s * (1 - a k / s) / (s + 1))
      = (\<Sum>k<C. (l k) ^ 2 - 2 * (l k * (a k / s)) + (s * (a k / s) ^ 2 + a k / s) / (s + 1))"
    by (simp only: acc_term[OF s0(2)])
  also have "\<dots> = 1 - 2 * (a (nat y) / s) + (s * (N / s ^ 2) + 1) / (s + 1)"
    by (simp only: sum.distrib sum_subtractf sum_divide_distrib[symmetric]
        sum_distrib_left[symmetric] l1 l2 sa sq)
  also have "\<dots> = ((s - a (nat y)) ^ 2 + 2 * (s - a (nat y)) + (N - (a (nat y)) ^ 2)) / (s * (s + 1))"
    by (rule acc_closed_alg[OF s0(3)])
  finally show ?thesis by (simp add: a_def s_def N_def)
qed

lemma acc_loss_off_label:
  assumes wf: "wf_tensor ev" "nonneg ev" and C: "cols ev = C" and y: "0 \<le> y" "y < int C"
  shows "acc_loss y ev C =
     Inr (((\<Sum>k\<in>{..<C} - {nat y}. alpha_a_of ev ! k) ^ 2
           + 2 * (\<Sum>k\<in>{..<C} - {nat y}. alpha_a_of ev ! k)
           + (\<Sum>k\<in>{..<C} - {nat y}. (alpha_a_of ev ! k) ^ 2))
          / (S_of ev * (S_of ev + 1)))"
proof -
  have ny: "nat y \<in> {..<C}" using y by simp
  have S: "0 < S_of ev" using S_of_pos[OF wf] C y by simp
  have 1: "S_of ev - alpha_a_of ev ! nat y = (\<Sum>k\<in>{..<C} - {nat y}. alpha_a_of ev ! k)"
    using C by (simp add: S_of_def sum_list_nth_sum sum.remove[OF _ ny])
  have 2: "(\<Sum>k<C. (alpha_a_of ev ! k) ^ 2) - (alpha_a_of ev ! nat y) ^ 2
      = (\<Sum>k\<in>{..<C} - {nat y}. (alpha_a_of ev ! k) ^ 2)"
    by (simp add: sum.remove[OF _ ny])
  show ?thesis
    by (simp only: acc_loss_closed[OF C y S] 1 2)
qed

lemma off_label_pos:
  assumes wf: "wf_tensor ev" "nonneg ev" and C: "cols ev = C" "2 \<le> C" and j: "j < C"
  shows "0 < (\<Sum>k\<in>{..<C} - {j}. alpha_a_of ev ! k) ^ 2
           + 2 * (\<Sum>k\<in>{..<C} - {j}. alpha_a_of ev ! k)
           + (\<Sum>k\<in>{..<C} - {j}. (alpha_a_of ev ! k) ^ 2)"
proof -
  have "(\<Sum>k\<in>{..<C} - {j}. 1) \<le> (\<Sum>k\<in>{..<C} - {j}. alpha_a_of ev ! k)"
    using C by (intro sum_mono) (simp add: alpha_a_ge_1[OF wf])
  moreover have "card ({..<C} - {j}) = C - 1" using j by simp
  ultimately have T: "1 \<le> (\<Sum>k\<in>{..<C} - {j}. alpha_a_of ev ! k)"
    using C(2) by simp
  have Q: "0 \<le> (\<Sum>k\<in>{..<C} - {j}. (alpha_a_of ev ! k) ^ 2)"
    by (intro sum_nonneg) simp
  have "0 \<le> (\<Sum>k\<in>{..<C} - {j}. alpha_a_of ev ! k) ^ 2" by simp
  with T Q show ?thesis by linarith
qed

lemma off_label_same:
  assumes C: "cols ev = C" "cols ev' = C"
    and same: "\<forall>k<C. k \<noteq> j \<longrightarrow> sum_dim0 ev' ! k = sum_dim0 ev ! k"
  shows "(\<Sum>k\<in>{..<C} - {j}. f (alpha_a_of ev' ! k)) = (\<Sum>k\<in>{..<C} - {j}. f (alpha_a_of ev ! k))"
  using assms by (intro sum.cong) (auto simp: alpha_a_of_def)

lemma S_of_split:
  assumes "cols ev = C" "j < C"
  shows "S_of ev = (\<Sum>k\<in>{..<C} - {j}. alpha_a_of ev ! k) + sum_dim0 ev ! j + 1"
proof -
  have "j \<in> {..<C}" using assms by simp
  then show ?thesis
    using assms by (simp add: S_of_def sum_list_nth_sum sum.remove[of _ j] alpha_a_of_def)
qed

lemma frac_decreasing:
  fixes K s s' :: real
  assumes "0 < K" "0 < s" "s < s'"
  shows "K / (s' * (s' + 1)) < K / (s * (s + 1))"
proof -
  have "s * (s + 1) < s' * (s' + 1)"
    using assms by (intro mult_strict_mono) simp_all
  moreover have "0 < s * (s + 1)" using assms by simp
  ultimately show ?thesis
    using assms(1) by (simp add: divide_strict_left_mono)
qed

lemma frac_small:
  fixes K s \<epsilon> :: real
  assumes "0 < K" "0 < \<epsilon>" "K / \<epsilon> \<le> s"
  shows "K / (s * (s + 1)) < \<epsilon>"
proof -
  have s: "0 < s" using assms by (meson divide_pos_pos less_le_trans)
  have "K \<le> \<epsilon> * s" using assms by (simp add: field_simps)
  also have "\<dots> < \<epsilon> * (s * (s + 1))"
    using assms(2) s by simp
  finally have "K < \<epsilon> * (s * (s + 1))" .
  moreover have "0 < s * (s + 1)" using s by simp
  ultimately show ?thesis
    by (simp only: pos_divide_less_eq)
qed

text \<open>
  C7, as amended: in exact real arithmetic and with at least two classes, for a label
  \<open>y\<close> and two non-negative evidence matrices whose evidence totals agree on every class
  but \<open>y\<close>, the one with the larger total on \<open>y\<close> has the strictly smaller \<open>acc_loss\<close>; the
  loss is strictly positive for every such matrix, and it falls below every positive
  bound once the total on \<open>y\<close> is large enough.
\<close>

theorem acc_loss_decreasing:
  assumes "wf_tensor ev" "nonneg ev" "cols ev = C"
    and "wf_tensor ev'" "nonneg ev'" "cols ev' = C"
    and "2 \<le> C" "0 \<le> y" "y < int C"
    and "\<forall>k<C. k \<noteq> nat y \<longrightarrow> sum_dim0 ev' ! k = sum_dim0 ev ! k"
    and "sum_dim0 ev ! nat y < sum_dim0 ev' ! nat y"
  shows "(\<exists>L L'. acc_loss y ev C = Inr L \<and> acc_loss y ev' C = Inr L' \<and> L' < L \<and> 0 < L')
    \<and> (\<forall>\<epsilon>>0. \<exists>e0. \<forall>ev''. wf_tensor ev'' \<and> nonneg ev'' \<and> cols ev'' = C
           \<and> (\<forall>k<C. k \<noteq> nat y \<longrightarrow> sum_dim0 ev'' ! k = sum_dim0 ev ! k)
           \<and> e0 \<le> sum_dim0 ev'' ! nat y
         \<longrightarrow> (\<exists>L''. acc_loss y ev'' C = Inr L'' \<and> 0 < L'' \<and> L'' < \<epsilon>))"
proof -
  define j where "j = nat y"
  define K where "K = (\<Sum>k\<in>{..<C} - {j}. alpha_a_of ev ! k) ^ 2
           + 2 * (\<Sum>k\<in>{..<C} - {j}. alpha_a_of ev ! k)
           + (\<Sum>k\<in>{..<C} - {j}. (alpha_a_of ev ! k) ^ 2)"
  define T where "T = (\<Sum>k\<in>{..<C} - {j}. alpha_a_of ev ! k)"
  have j: "j < C" using assms by (simp add: j_def)
  have K: "0 < K"
    unfolding K_def using off_label_pos[OF assms(1,2,3) \<open>2 \<le> C\<close> j] .
  have T: "0 \<le> T"
    unfolding T_def using assms(3) by (intro sum_nonneg) (simp add: alpha_a_of_def sum_dim0_nonneg[OF assms(1,2)])
  have form: "acc_loss y e C = Inr (K / (S_of e * (S_of e + 1))) \<and> S_of e = T + sum_dim0 e ! j + 1 \<and> 0 < S_of e"
    if e: "wf_tensor e" "nonneg e" "cols e = C"
      and same: "\<forall>k<C. k \<noteq> j \<longrightarrow> sum_dim0 e ! k = sum_dim0 ev ! k" for e
  proof -
    have "acc_loss y e C = Inr (K / (S_of e * (S_of e + 1)))"
      unfolding K_def j_def
      using acc_loss_off_label[OF e assms(8,9)]
        off_label_same[OF assms(3) e(3) same[unfolded j_def], of "\<lambda>x. x"]
        off_label_same[OF assms(3) e(3) same[unfolded j_def], of "\<lambda>x. x ^ 2"]
      by simp
    moreover have "S_of e = T + sum_dim0 e ! j + 1"
      unfolding T_def
      using S_of_split[OF e(3) j] off_label_same[OF assms(3) e(3) same, of "\<lambda>x. x"] by simp
    moreover have "0 < S_of e" using S_of_pos[OF e(1,2)] e(3) assms(7) by simp
    ultimately show ?thesis by simp
  qed
  have f0: "acc_loss y ev C = Inr (K / (S_of ev * (S_of ev + 1)))"
      "S_of ev = T + sum_dim0 ev ! j + 1" "0 < S_of ev"
    using form[OF assms(1,2,3)] by simp_all
  have f1: "acc_loss y ev' C = Inr (K / (S_of ev' * (S_of ev' + 1)))"
      "S_of ev' = T + sum_dim0 ev' ! j + 1" "0 < S_of ev'"
    using form[OF assms(4,5,6)] assms(10) by (simp_all add: j_def)
  have lt: "S_of ev < S_of ev'"
    using f0(2) f1(2) assms(11) by (simp add: j_def)
  have "K / (S_of ev' * (S_of ev' + 1)) < K / (S_of ev * (S_of ev + 1))"
    using frac_decreasing[OF K f0(3) lt] .
  moreover have "0 < K / (S_of ev' * (S_of ev' + 1))"
    using K f1(3) by simp
  ultimately have part1: "\<exists>L L'. acc_loss y ev C = Inr L \<and> acc_loss y ev' C = Inr L' \<and> L' < L \<and> 0 < L'"
    using f0(1) f1(1) by simp
  have part2: "\<exists>e0. \<forall>ev''. wf_tensor ev'' \<and> nonneg ev'' \<and> cols ev'' = C
           \<and> (\<forall>k<C. k \<noteq> nat y \<longrightarrow> sum_dim0 ev'' ! k = sum_dim0 ev ! k)
           \<and> e0 \<le> sum_dim0 ev'' ! nat y
         \<longrightarrow> (\<exists>L''. acc_loss y ev'' C = Inr L'' \<and> 0 < L'' \<and> L'' < \<epsilon>)" if eps: "0 < \<epsilon>" for \<epsilon>
  proof (rule exI[of _ "K / \<epsilon>"], intro allI impI)
    fix e
    assume a: "wf_tensor e \<and> nonneg e \<and> cols e = C
           \<and> (\<forall>k<C. k \<noteq> nat y \<longrightarrow> sum_dim0 e ! k = sum_dim0 ev ! k)
           \<and> K / \<epsilon> \<le> sum_dim0 e ! nat y"
    then have f: "acc_loss y e C = Inr (K / (S_of e * (S_of e + 1)))"
      "S_of e = T + sum_dim0 e ! j + 1" "0 < S_of e"
      using form[of e] by (simp_all add: j_def)
    have "K / \<epsilon> \<le> S_of e" using a f(2) T by (simp add: j_def)
    then have "K / (S_of e * (S_of e + 1)) < \<epsilon>"
      using frac_small[OF K eps] by simp
    moreover have "0 < K / (S_of e * (S_of e + 1))" using K f(3) by simp
    ultimately show "\<exists>L''. acc_loss y e C = Inr L'' \<and> 0 < L'' \<and> L'' < \<epsilon>"
      using f(1) by simp
  qed
  from part1 part2 show ?thesis by blast
qed

theorem acc_loss_decreasing_witness:
  "(\<exists>L L'. acc_loss 0 \<lparr>cols = 2, rows = [[1, 2]]\<rparr> 2 = Inr L
        \<and> acc_loss 0 \<lparr>cols = 2, rows = [[3, 2]]\<rparr> 2 = Inr L' \<and> L' < L \<and> 0 < L')
   \<and> (\<exists>e0. \<forall>ev''. wf_tensor ev'' \<and> nonneg ev'' \<and> cols ev'' = 2
           \<and> (\<forall>k<2. k \<noteq> nat 0 \<longrightarrow> sum_dim0 ev'' ! k = sum_dim0 \<lparr>cols = 2, rows = [[1, 2]]\<rparr> ! k)
           \<and> e0 \<le> sum_dim0 ev'' ! nat 0
         \<longrightarrow> (\<exists>L''. acc_loss 0 ev'' 2 = Inr L'' \<and> 0 < L'' \<and> L'' < 1 / 10))"
proof -
  have u: "[0..<2] = [0, Suc 0]" by (simp add: upt_rec)
  have same: "\<forall>k<2. k \<noteq> nat 0 \<longrightarrow>
      sum_dim0 \<lparr>cols = 2, rows = [[3, 2]]\<rparr> ! k = sum_dim0 \<lparr>cols = 2, rows = [[1, 2]]\<rparr> ! k"
    by (simp add: sum_dim0_def u less_Suc_eq numeral_2_eq_2)
  have more: "sum_dim0 \<lparr>cols = 2, rows = [[1, 2]]\<rparr> ! nat 0 < sum_dim0 \<lparr>cols = 2, rows = [[3, 2]]\<rparr> ! nat 0"
    by (simp add: sum_dim0_def u)
  have wf: "wf_tensor \<lparr>cols = 2, rows = [[1, 2]]\<rparr>" "wf_tensor \<lparr>cols = 2, rows = [[3, 2]]\<rparr>"
    by (simp_all add: wf_tensor_def)
  have nn: "nonneg \<lparr>cols = 2, rows = [[1, 2]]\<rparr>" "nonneg \<lparr>cols = 2, rows = [[3, 2]]\<rparr>"
    by (simp_all add: nonneg_def)
  note th = acc_loss_decreasing [of "\<lparr>cols = 2, rows = [[1, 2]]\<rparr>" 2 "\<lparr>cols = 2, rows = [[3, 2]]\<rparr>" 0,
        OF wf(1) nn(1) _ wf(2) nn(2) _ _ _ _ same more, simplified]
  from th have p1: "\<exists>L L'. acc_loss 0 \<lparr>cols = 2, rows = [[1, 2]]\<rparr> 2 = Inr L
        \<and> acc_loss 0 \<lparr>cols = 2, rows = [[3, 2]]\<rparr> 2 = Inr L' \<and> L' < L \<and> 0 < L'"
    by blast
  from th have "\<forall>\<epsilon>>0. \<exists>e0. \<forall>ev''. wf_tensor ev'' \<and> nonneg ev'' \<and> cols ev'' = 2
           \<and> (\<forall>k<2. k \<noteq> nat 0 \<longrightarrow> sum_dim0 ev'' ! k = sum_dim0 \<lparr>cols = 2, rows = [[1, 2]]\<rparr> ! k)
           \<and> e0 \<le> sum_dim0 ev'' ! nat 0
         \<longrightarrow> (\<exists>L''. acc_loss 0 ev'' 2 = Inr L'' \<and> 0 < L'' \<and> L'' < \<epsilon>)"
    by simp
  from this[rule_format, of "1 / 10"] p1 show ?thesis
    by simp
qed

text \<open>
  In binary32 the claim fails with two classes. With the evidence 0 on the other class,
  the true-class evidence \<open>2 ^ 84\<close> and the larger \<open>2 ^ 85\<close> both give the loss 0: adding 1
  to them changes nothing, \<open>P\<close> is \<open>[1, 2 ^ - 84]\<close> or \<open>[1, 2 ^ - 85]\<close>, and the square and
  the variance of the second class are below the least positive float. So the loss is
  0 at finite evidence, and more evidence on the true class does not lower it.
\<close>

theorem acc_loss_32_zero_at_finite_evidence:
  "acc_loss_32 0 \<lparr>cols32 = 2, rows32 = [[Fin False (2 ^ 84), Fin False 0]]\<rparr> 2
     = Inr (Fin False 0)
   \<and> acc_loss_32 0 \<lparr>cols32 = 2, rows32 = [[Fin False (2 ^ 85), Fin False 0]]\<rparr> 2
     = Inr (Fin False 0)"
  using acc_loss_32_zero_84 acc_loss_32_zero_85 by simp

text \<open>
  Why the amended statement asks for two classes: over the reals, with a single class
  the evidence \<open>[[0]]\<close> and the evidence \<open>[[1]]\<close> both have the loss 0.
\<close>

lemma acc_loss_one_class_constant:
  "acc_loss 0 \<lparr>cols = 1, rows = [[1]]\<rparr> 1 = acc_loss 0 \<lparr>cols = 1, rows = [[0]]\<rparr> 1
   \<and> acc_loss 0 \<lparr>cols = 1, rows = [[0]]\<rparr> 1 = Inr 0"
  by (simp add: acc_loss_def Let_def one_hot_def broadcast_op_def broadcastable_def bc_def
      P_of_def S_of_def alpha_a_of_def sum_dim0_def)

section \<open>The loops of the consistency loss\<close>

lemma inner_loop_sum:
  assumes "m < length P" "\<forall>v\<in>set vs. v < length P"
  shows "inner_loop P H m vs s = Inr (s + sum_list (map (excess P H m) (filter (\<lambda>v. v \<noteq> m) vs)))"
  using assms by (induction vs arbitrary: s) (auto simp: E_mv_def)

lemma sum_list_others:
  "sum_list (map f (filter (\<lambda>v. v \<noteq> m) [0..<V])) = (\<Sum>v\<in>{..<V} - {m}. f v)"
proof -
  have "set (filter (\<lambda>v. v \<noteq> m) [0..<V]) = {..<V} - {m}" by auto
  moreover have "distinct (filter (\<lambda>v. v \<noteq> m) [0..<V])" by simp
  ultimately show ?thesis
    by (metis sum_list_distinct_conv_sum_set)
qed

lemma inner_loop_range:
  assumes "m < length P" "V \<le> length P"
  shows "inner_loop P H m [0..<V] 0 = Inr (\<Sum>v\<in>{..<V} - {m}. excess P H m v)"
  using assms by (simp add: inner_loop_sum sum_list_others)

lemma outer_loop_sum:
  assumes "2 \<le> V" "V \<le> length P" "\<forall>m\<in>set ms. m < length P"
  shows "outer_loop P H V ms L =
     Inr (L + sum_list (map (\<lambda>m. (\<Sum>v\<in>{..<V} - {m}. excess P H m v) / (real V - 1)) ms))"
  using assms
proof (induction ms arbitrary: L)
  case Nil
  then show ?case by simp
next
  case (Cons m ms)
  have "int V - 1 \<noteq> 0" using Cons.prems(1) by simp
  moreover have "real_of_int (int V - 1) = real V - 1" by simp
  ultimately show ?case
    using Cons by (simp add: inner_loop_range add.assoc del: of_int_diff)
qed

lemma con_loss_sum:
  assumes "2 \<le> V" "V \<le> length (rows ev)" "con_P ev a C = Inr P"
  shows "con_loss ev a V C = Inr (spec_L_con (excess P (map entropy P)) V)"
proof -
  have "length P = length (rows ev)"
    using assms(3) by (auto simp: con_P_def split: if_splits)
  then show ?thesis
    using assms by (simp add: con_loss_def outer_loop_sum spec_L_con_def sum_list_upt_sum)
qed

lemma map2_commute: "map2 (\<lambda>p q. p + q) xs ys = map2 (\<lambda>p q. p + q) ys (xs :: real list)"
  by (induction xs ys rule: list_induct2') (auto simp: add.commute)

lemma excess_sym: "excess P H m v = excess P H v m"
  by (simp add: excess_def map2_commute[of "P ! m"])

lemma triangle_swap:
  fixes E :: "nat \<Rightarrow> nat \<Rightarrow> real"
  shows "(\<Sum>m<V. \<Sum>v = Suc m..<V. E m v) = (\<Sum>v<V. \<Sum>m<v. E m v)"
proof (induction V)
  case 0
  then show ?case by simp
next
  case (Suc V)
  have "(\<Sum>m<V. \<Sum>v = Suc m..<Suc V. E m v) = (\<Sum>m<V. (\<Sum>v = Suc m..<V. E m v) + E m V)"
    by (intro sum.cong refl) simp
  then show ?case
    using Suc by (simp add: sum.distrib)
qed

lemma double_count:
  assumes sym: "\<And>m v. E m v = E v m"
  shows "(\<Sum>m<V. \<Sum>v\<in>{..<V} - {m}. E m v) = 2 * single_count E V"
proof -
  have "(\<Sum>m<V. \<Sum>v\<in>{..<V} - {m}. E m v) = (\<Sum>m<V. (\<Sum>v<m. E m v) + (\<Sum>v = Suc m..<V. E m v))"
  proof (intro sum.cong refl)
    fix m assume "m \<in> {..<V}"
    then have "{..<V} - {m} = {..<m} \<union> {Suc m..<V}" by auto
    moreover have "{..<m} \<inter> {Suc m..<V} = {}" by auto
    ultimately show "(\<Sum>v\<in>{..<V} - {m}. E m v) = (\<Sum>v<m. E m v) + (\<Sum>v = Suc m..<V. E m v)"
      by (simp add: sum.union_disjoint)
  qed
  also have "\<dots> = (\<Sum>m<V. \<Sum>v<m. E m v) + (\<Sum>m<V. \<Sum>v = Suc m..<V. E m v)"
    by (simp add: sum.distrib)
  also have "(\<Sum>m<V. \<Sum>v = Suc m..<V. E m v) = (\<Sum>v<V. \<Sum>m<v. E m v)"
    by (rule triangle_swap)
  also have "(\<Sum>m<V. \<Sum>v<m. E m v) = (\<Sum>v<V. \<Sum>m<v. E m v)"
    by (simp add: sym[symmetric])
  finally show ?thesis by (simp add: single_count_def)
qed

lemma con_P_example:
  "con_P \<lparr>cols = 2, rows = [[0, 0], [1, 0]]\<rparr> (replicate 2 (1 / real 2)) 2
     = Inr [[1 / 2, 1 / 2], [2 / 3, 1 / 3]]"
  by (simp add: con_P_def broadcastable_def view_P_def Let_def bc_def numeral_2_eq_2)

text \<open>
  C2: for an evidence matrix of \<open>V \<ge> 2\<close> views, \<open>con_loss\<close> takes every ordered pair
  \<open>(m, v)\<close> with \<open>m \<noteq> v\<close>, divides the sum of \<open>E_mv\<close> over \<open>v\<close> by \<open>V - 1\<close> for each \<open>m\<close>
  and adds these averages over \<open>m\<close>; so each unordered pair is counted twice, and
  \<open>V - 1\<close> is the only divisor.
\<close>

theorem con_loss_double_count:
  assumes "2 \<le> V" "length (rows ev) = V" "con_P ev a C = Inr P"
  shows "con_loss ev a V C = Inr (spec_L_con (excess P (map entropy P)) V)
    \<and> spec_L_con (excess P (map entropy P)) V
        = 2 * single_count (excess P (map entropy P)) V / (real V - 1)"
proof -
  have "spec_L_con (excess P (map entropy P)) V
      = (\<Sum>m<V. \<Sum>v\<in>{..<V} - {m}. excess P (map entropy P) m v) / (real V - 1)"
    by (simp add: spec_L_con_def sum_divide_distrib)
  also have "\<dots> = 2 * single_count (excess P (map entropy P)) V / (real V - 1)"
    using double_count[of "excess P (map entropy P)" V] excess_sym by simp
  finally show ?thesis
    using con_loss_sum[of V ev a C P] assms by simp
qed

theorem con_loss_double_count_witness:
  "con_loss \<lparr>cols = 2, rows = [[0, 0], [1, 0]]\<rparr> (replicate 2 (1 / real 2)) 2 2
     = Inr (spec_L_con (excess [[1 / 2, 1 / 2], [2 / 3, 1 / 3]]
              (map entropy [[1 / 2, 1 / 2], [2 / 3, 1 / 3]])) 2)
   \<and> spec_L_con (excess [[1 / 2, 1 / 2], [2 / 3, 1 / 3]]
              (map entropy [[1 / 2, 1 / 2], [2 / 3, 1 / 3]])) 2
      = 2 * single_count (excess [[1 / 2, 1 / 2], [2 / 3, 1 / 3]]
              (map entropy [[1 / 2, 1 / 2], [2 / 3, 1 / 3]])) 2 / (real 2 - 1)"
  by (rule con_loss_double_count[OF _ _ con_P_example]) simp_all

section \<open>The excess entropy of two views\<close>

lemma ln_gap:
  fixes x m :: real
  assumes "0 < x" "0 < m"
  shows "x * ln m - x * ln x \<le> m - x"
    and "x * ln m - x * ln x = m - x \<Longrightarrow> m = x"
proof -
  have r: "0 < m / x" using assms by simp
  have e: "x * ln (m / x) = x * ln m - x * ln x"
    using assms by (simp add: ln_divide_pos right_diff_distrib)
  have "x * ln (m / x) \<le> x * (m / x - 1)"
    using ln_le_minus_one[OF r] assms(1) by (simp add: mult_left_mono)
  also have "x * (m / x - 1) = m - x"
    using assms(1) by (simp add: right_diff_distrib)
  finally show "x * ln m - x * ln x \<le> m - x" by (simp add: e)
  assume "x * ln m - x * ln x = m - x"
  then have "x * ln (m / x) = x * (m / x - 1)"
    using assms(1) by (simp add: e right_diff_distrib)
  then have "ln (m / x) = m / x - 1" using assms(1) by simp
  then have "m / x = 1" by (rule ln_eq_minus_one[OF r])
  then show "m = x" using assms(1) by simp
qed

lemma midpoint_xlnx:
  fixes x y :: real
  assumes "0 < x" "0 < y"
  shows "(x + y) * ln ((x + y) / 2) \<le> x * ln x + y * ln y"
    and "(x + y) * ln ((x + y) / 2) = x * ln x + y * ln y \<Longrightarrow> x = y"
proof -
  define m where "m = (x + y) / 2"
  have m: "0 < m" using assms by (simp add: m_def)
  have s: "(x + y) * ln m = (x * ln m - x * ln x) + (y * ln m - y * ln y) + (x * ln x + y * ln y)"
    by (simp add: algebra_simps)
  have z: "(m - x) + (m - y) = 0" by (simp add: m_def field_simps)
  note a = ln_gap(1)[OF assms(1) m] and b = ln_gap(1)[OF assms(2) m]
  show "(x + y) * ln ((x + y) / 2) \<le> x * ln x + y * ln y"
    using a b s z unfolding m_def[symmetric] by linarith
  assume "(x + y) * ln ((x + y) / 2) = x * ln x + y * ln y"
  then have "x * ln m - x * ln x = m - x"
    using a b s z unfolding m_def[symmetric] by linarith
  then have "m = x" by (rule ln_gap(2)[OF assms(1) m])
  then show "x = y" by (simp add: m_def)
qed

lemma js_term_ln: "js_term x y = (x * ln x + y * ln y - (x + y) * ln ((x + y) / 2)) / (2 * ln 2)"
  by (simp add: js_term_def log_def field_simps)

lemma js_term_nonneg:
  assumes "0 < x" "0 < y"
  shows "0 \<le> js_term x y"
  using midpoint_xlnx(1)[OF assms] by (simp add: js_term_ln)

lemma js_term_zero_iff:
  assumes "0 < x" "0 < y"
  shows "js_term x y = 0 \<longleftrightarrow> x = y"
proof
  assume "js_term x y = 0"
  then have "(x + y) * ln ((x + y) / 2) = x * ln x + y * ln y"
    by (simp add: js_term_ln)
  then show "x = y" by (rule midpoint_xlnx(2)[OF assms])
next
  assume "x = y"
  then show "js_term x y = 0" by (simp add: js_term_ln)
qed

lemma view_P_uniform:
  assumes "length e = C" "0 < C"
  shows "view_P (replicate C (1 / real C)) C e
       = map (\<lambda>x. (x + 1) / sum_list (map (\<lambda>x. x + 1) e)) e"
proof -
  have "map2 (\<lambda>b u. b + u) (map (\<lambda>x. x / S) e) (map (\<lambda>x. x * (real C / S)) (replicate C (1 / real C)))
      = map (\<lambda>x. (x + 1) / S) e" for S :: real
    using assms by (simp add: list_eq_iff_nth_eq add_divide_distrib)
  then show ?thesis
    using assms by (simp add: view_P_def Let_def bc_def)
qed

lemma row_strength_pos:
  fixes e :: "real list"
  assumes "list_all (\<lambda>x. 0 \<le> x) e" "e \<noteq> []"
  shows "0 < sum_list (map (\<lambda>x. x + 1) e)"
proof -
  have "(\<Sum>k<length e. (1::real)) \<le> (\<Sum>k<length e. e ! k + 1)"
    using assms(1) by (intro sum_mono) (simp add: list_all_length)
  then have "real (length e) \<le> (\<Sum>k<length e. e ! k + 1)" by simp
  moreover have "0 < real (length e)" using assms(2) by simp
  ultimately have "0 < (\<Sum>k<length e. e ! k + 1)" by linarith
  then show ?thesis
    by (simp add: sum_list_nth_sum)
qed

lemma view_P_pos:
  assumes "list_all (\<lambda>x. 0 \<le> x) e" "length e = C" "k < C"
  shows "0 < view_P (replicate C (1 / real C)) C e ! k"
proof -
  have ne: "e \<noteq> []" and C: "0 < C" using assms by auto
  have "0 \<le> e ! k" using assms by (simp add: list_all_length)
  then have "0 < (e ! k + 1) / sum_list (map (\<lambda>x. x + 1) e)"
    using row_strength_pos[OF assms(1) ne] by simp
  then show ?thesis
    using assms(2,3) by (simp add: view_P_uniform[OF assms(2) C])
qed

lemma length_view_P_uniform:
  assumes "length e = C"
  shows "length (view_P (replicate C (1 / real C)) C e) = C"
  using assms by (simp add: view_P_def Let_def bc_def)

lemma entropy_sum: "entropy p = - (\<Sum>k<length p. p ! k * log 2 (p ! k))"
  by (simp add: entropy_def sum_list_nth_sum)

lemma excess_js:
  assumes "m < length P" "v < length P" "length (P ! m) = n" "length (P ! v) = n"
  shows "excess P (map entropy P) m v = (\<Sum>k<n. js_term (P ! m ! k) (P ! v ! k))"
proof -
  have "excess P (map entropy P) m v
      = - (\<Sum>k<n. (P ! m ! k + P ! v ! k) / 2 * log 2 ((P ! m ! k + P ! v ! k) / 2))
        + (\<Sum>k<n. P ! m ! k * log 2 (P ! m ! k)) / 2
        + (\<Sum>k<n. P ! v ! k * log 2 (P ! v ! k)) / 2"
    using assms by (simp add: excess_def Let_def entropy_sum)
  also have "\<dots> = (\<Sum>k<n. js_term (P ! m ! k) (P ! v ! k))"
    unfolding js_term_def
    by (simp only: sum.distrib sum_subtractf sum_divide_distrib)
  finally show ?thesis .
qed

lemma js_term_same: "js_term x x = 0"
  by (simp add: js_term_ln)

lemma excess_same_rows:
  assumes "m < length P" "v < length P" "P ! m = P ! v"
  shows "excess P (map entropy P) m v = 0"
proof -
  have "length (P ! v) = length (P ! m)" using assms(3) by simp
  from excess_js[OF assms(1,2) refl this] assms(3) show ?thesis
    by (simp add: js_term_same)
qed

lemma excess_nonneg_iff:
  assumes "m < length P" "v < length P" "length (P ! m) = n" "length (P ! v) = n"
    and pos: "\<forall>k<n. 0 < P ! m ! k \<and> 0 < P ! v ! k"
  shows "0 \<le> excess P (map entropy P) m v"
    and "excess P (map entropy P) m v = 0 \<longleftrightarrow> P ! m = P ! v"
proof -
  note e = excess_js[OF assms(1-4)]
  have nn: "0 \<le> js_term (P ! m ! k) (P ! v ! k)" if "k \<in> {..<n}" for k
    using that pos by (simp add: js_term_nonneg)
  show "0 \<le> excess P (map entropy P) m v"
    unfolding e using nn by (rule sum_nonneg)
  have "excess P (map entropy P) m v = 0 \<longleftrightarrow> (\<forall>k\<in>{..<n}. js_term (P ! m ! k) (P ! v ! k) = 0)"
    unfolding e using nn by (intro sum_nonneg_eq_0_iff) simp_all
  also have "\<dots> \<longleftrightarrow> (\<forall>k<n. P ! m ! k = P ! v ! k)"
    using pos by (auto simp: js_term_zero_iff)
  also have "\<dots> \<longleftrightarrow> P ! m = P ! v"
    using assms(3,4) by (auto simp: list_eq_iff_nth_eq)
  finally show "excess P (map entropy P) m v = 0 \<longleftrightarrow> P ! m = P ! v" .
qed

lemma trans_sym: "a = c \<Longrightarrow> b = c \<Longrightarrow> a = b"
  by simp

text \<open>
  Over exact reals: for non-negative evidence, the uniform prior \<open>1 / C\<close> and two
  different views \<open>m\<close> and \<open>v\<close>, the excess entropy \<open>E_mv\<close> is at least 0, and it is 0
  exactly when \<open>P_m = P_v\<close>; when all views have the same evidence vector, \<open>con_loss\<close> is
  0. The sign of the float32 \<open>E_mv\<close> is another matter: it is decided by the rounding of
  \<open>torch.log2\<close> and of the sums of lines 39 and 45 to 47.
\<close>

theorem excess_entropy_nonneg:
  assumes "wf_tensor ev" "nonneg ev" "cols ev = C"
    and "con_P ev (replicate C (1 / real C)) C = Inr P"
    and "m < length (rows ev)" "v < length (rows ev)" "m \<noteq> v"
  shows "E_mv P (map entropy P) m v = Inr (excess P (map entropy P) m v)
    \<and> 0 \<le> excess P (map entropy P) m v
    \<and> (excess P (map entropy P) m v = 0 \<longleftrightarrow> P ! m = P ! v)
    \<and> ((\<forall>i<length (rows ev). rows ev ! i = rows ev ! 0)
        \<longrightarrow> con_loss ev (replicate C (1 / real C)) (length (rows ev)) C = Inr 0)"
proof -
  let ?a = "replicate C (1 / real C)"
  have P: "P = map (view_P ?a C) (rows ev)"
    using assms(4) by (auto simp: con_P_def split: if_splits)
  then have len: "length P = length (rows ev)" by simp
  have row: "length (rows ev ! i) = C \<and> list_all (\<lambda>x. 0 \<le> x) (rows ev ! i)"
    if "i < length (rows ev)" for i
    using that assms(1,2,3) by (simp add: wf_tensor_def nonneg_def list_all_length)
  have lenP: "length (P ! i) = C" if "i < length (rows ev)" for i
    using that row[OF that] by (simp add: P length_view_P_uniform)
  have posP: "0 < P ! i ! k" if "i < length (rows ev)" "k < C" for i k
    using that row[OF that(1)] by (simp add: P view_P_pos)
  have 1: "E_mv P (map entropy P) m v = Inr (excess P (map entropy P) m v)"
    using assms(5,6) len by (simp add: E_mv_def)
  have pos: "\<forall>k<C. 0 < P ! m ! k \<and> 0 < P ! v ! k"
    using posP assms(5,6) by simp
  have mP: "m < length P" and vP: "v < length P" using assms(5,6) len by simp_all
  note 2 = excess_nonneg_iff(1)[OF mP vP lenP[OF assms(5)] lenP[OF assms(6)] pos]
  note 3 = excess_nonneg_iff(2)[OF mP vP lenP[OF assms(5)] lenP[OF assms(6)] pos]
  have 4: "con_loss ev ?a (length (rows ev)) C = Inr 0"
    if same: "\<forall>i<length (rows ev). rows ev ! i = rows ev ! 0"
  proof -
    have V: "2 \<le> length (rows ev)" using assms(5,6,7) by linarith
    have eqP: "P ! i = P ! j" if "i < length P" "j < length P" for i j
    proof -
      have "i < length (rows ev)" "j < length (rows ev)" using that len by simp_all
      then have "rows ev ! i = rows ev ! 0" "rows ev ! j = rows ev ! 0"
        using same by blast+
      then have "rows ev ! i = rows ev ! j" by (rule trans_sym)
      then show ?thesis using that len by (simp add: P)
    qed
    have z: "excess P (map entropy P) i j = 0" if "i < length P" "j < length P" for i j
      by (rule excess_same_rows[OF that eqP[OF that]])
    have "spec_L_con (excess P (map entropy P)) (length (rows ev)) = 0"
      unfolding spec_L_con_def
    proof (rule sum.neutral, rule ballI)
      fix i assume i: "i \<in> {..<length (rows ev)}"
      have "(\<Sum>j\<in>{..<length (rows ev)} - {i}. excess P (map entropy P) i j) = 0"
        using i len by (intro sum.neutral ballI z) simp_all
      then show "(\<Sum>j\<in>{..<length (rows ev)} - {i}. excess P (map entropy P) i j)
          / (real (length (rows ev)) - 1) = 0" by simp
    qed
    then show ?thesis
      using con_loss_sum[OF V order_refl assms(4)] by simp
  qed
  show ?thesis
    using 1 2 3 4 by blast
qed

theorem excess_entropy_nonneg_witness:
  "0 \<le> excess [[1 / 2, 1 / 2], [2 / 3, 1 / 3]] (map entropy [[1 / 2, 1 / 2], [2 / 3, 1 / 3]]) 0 1
   \<and> excess [[1 / 2, 1 / 2], [2 / 3, 1 / 3]] (map entropy [[1 / 2, 1 / 2], [2 / 3, 1 / 3]]) 0 1 \<noteq> 0
   \<and> con_loss \<lparr>cols = 2, rows = [[1, 0], [1, 0]]\<rparr> (replicate 2 (1 / real 2)) 2 2 = Inr 0"
proof -
  have cp: "con_P \<lparr>cols = 2, rows = [[1, 0], [1, 0]]\<rparr> (replicate 2 (1 / real 2)) 2
     = Inr [[2 / 3, 1 / 3], [2 / 3, 1 / 3]]"
    by (simp add: con_P_def broadcastable_def view_P_def Let_def bc_def numeral_2_eq_2)
  have a: "0 \<le> excess [[1 / 2, 1 / 2], [2 / 3, 1 / 3]] (map entropy [[1 / 2, 1 / 2], [2 / 3, 1 / 3]]) 0 1
   \<and> excess [[1 / 2, 1 / 2], [2 / 3, 1 / 3]] (map entropy [[1 / 2, 1 / 2], [2 / 3, 1 / 3]]) 0 1 \<noteq> 0"
    using excess_entropy_nonneg [of "\<lparr>cols = 2, rows = [[0, 0], [1, 0]]\<rparr>" 2
        "[[1 / 2, 1 / 2], [2 / 3, 1 / 3]]" 0 1, OF _ _ _ con_P_example]
    by (simp add: wf_tensor_def nonneg_def)
  have b: "con_loss \<lparr>cols = 2, rows = [[1, 0], [1, 0]]\<rparr> (replicate 2 (1 / real 2)) 2 2 = Inr 0"
    using excess_entropy_nonneg [of "\<lparr>cols = 2, rows = [[1, 0], [1, 0]]\<rparr>" 2
        "[[2 / 3, 1 / 3], [2 / 3, 1 / 3]]" 0 1, OF _ _ _ cp]
    by (simp add: wf_tensor_def nonneg_def less_Suc_eq numeral_2_eq_2)
  from a b show ?thesis by simp
qed

section \<open>The losses do not depend on the order of the views\<close>

lemma perm_facts:
  assumes "mset p = mset [0..<n]"
  shows "length p = n" "distinct p" "set p = {..<n}"
proof -
  show "length p = n" using assms by (metis length_upt mset_eq_length minus_nat.diff_0)
  show "distinct p" using assms by (metis distinct_upt mset_eq_imp_distinct_iff)
  show "set p = {..<n}" using assms by (metis mset_eq_setD set_upt atLeast0LessThan)
qed

lemma perm_bij:
  assumes "mset p = mset [0..<n]"
  shows "bij_betw (\<lambda>i. p ! i) {..<n} {..<n}"
  using perm_facts[OF assms] by (simp add: bij_betw_nth)

lemma mset_permuted:
  assumes "mset p = mset [0..<length xs]"
  shows "mset (map (\<lambda>i. xs ! i) p) = mset xs"
proof -
  have "mset (map (\<lambda>i. xs ! i) p) = image_mset (\<lambda>i. xs ! i) (mset p)" by simp
  also have "\<dots> = image_mset (\<lambda>i. xs ! i) (mset [0..<length xs])" by (simp only: assms)
  also have "\<dots> = mset (map (\<lambda>i. xs ! i) [0..<length xs])" by simp
  also have "\<dots> = mset xs" by (simp only: map_nth)
  finally show ?thesis .
qed

lemma sum_list_mset_cong:
  fixes g :: "'a \<Rightarrow> real"
  assumes "mset xs = mset ys"
  shows "sum_list (map g xs) = sum_list (map g ys)"
proof -
  have "sum_list (map g xs) = sum_mset (image_mset g (mset xs))"
    by (simp add: sum_mset_sum_list[symmetric])
  also have "\<dots> = sum_mset (image_mset g (mset ys))" by (simp only: assms)
  also have "\<dots> = sum_list (map g ys)"
    by (simp add: sum_mset_sum_list[symmetric])
  finally show ?thesis .
qed

lemma sum_dim0_permute:
  assumes "mset p = mset [0..<length (rows ev)]"
  shows "sum_dim0 (permute_views p ev) = sum_dim0 ev"
  using sum_list_mset_cong[OF mset_permuted[OF assms]]
  by (simp add: sum_dim0_def permute_views_def)

lemma acc_loss_permute:
  assumes "mset p = mset [0..<length (rows ev)]"
  shows "acc_loss y (permute_views p ev) C = acc_loss y ev C"
  using sum_dim0_permute[OF assms]
  by (simp add: acc_loss_def P_of_def S_of_def alpha_a_of_def)

lemma reindex_pairs:
  fixes E :: "nat \<Rightarrow> nat \<Rightarrow> real"
  assumes b: "bij_betw f {..<V} {..<V}"
  shows "(\<Sum>m<V. (\<Sum>v\<in>{..<V} - {m}. E (f m) (f v)) / c)
       = (\<Sum>m<V. (\<Sum>v\<in>{..<V} - {m}. E m v) / c)"
proof -
  have inj: "inj_on f {..<V}" and img: "f ` {..<V} = {..<V}"
    using b by (simp_all add: bij_betw_def)
  have inner: "(\<Sum>v\<in>{..<V} - {m}. E (f m) (f v)) = (\<Sum>v\<in>{..<V} - {f m}. E (f m) v)"
    if m: "m \<in> {..<V}" for m
  proof (rule sum.reindex_bij_betw)
    have "inj_on f ({..<V} - {m})" using inj by (rule inj_on_subset) auto
    moreover have "f ` ({..<V} - {m}) = {..<V} - {f m}"
      using inj_on_image_set_diff[OF inj, of "{..<V}" "{m}"] m img by auto
    ultimately show "bij_betw f ({..<V} - {m}) ({..<V} - {f m})"
      by (simp add: bij_betw_def)
  qed
  have "(\<Sum>m<V. (\<Sum>v\<in>{..<V} - {m}. E (f m) (f v)) / c)
      = (\<Sum>m<V. (\<Sum>v\<in>{..<V} - {f m}. E (f m) v) / c)"
    by (intro sum.cong refl) (simp only: inner)
  also have "\<dots> = (\<Sum>m<V. (\<Sum>v\<in>{..<V} - {m}. E m v) / c)"
    by (rule sum.reindex_bij_betw[OF b, of "\<lambda>m. (\<Sum>v\<in>{..<V} - {m}. E m v) / c"])
  finally show ?thesis .
qed

lemma excess_permuted:
  assumes "m < length p" "v < length p" "p ! m < length P" "p ! v < length P"
  shows "excess (map (\<lambda>i. P ! i) p) (map entropy (map (\<lambda>i. P ! i) p)) m v
       = excess P (map entropy P) (p ! m) (p ! v)"
  using assms by (simp add: excess_def Let_def)

lemma spec_L_con_cong:
  assumes "\<And>m v. m < V \<Longrightarrow> v < V \<Longrightarrow> E m v = E' m v"
  shows "spec_L_con E V = spec_L_con E' V"
  unfolding spec_L_con_def
  by (intro sum.cong refl arg_cong2[where f = "(/)"]) (simp_all add: assms)

lemma spec_L_con_permute:
  assumes p: "mset p = mset [0..<V]" and len: "length P = V"
  shows "spec_L_con (excess (map (\<lambda>i. P ! i) p) (map entropy (map (\<lambda>i. P ! i) p))) V
       = spec_L_con (excess P (map entropy P)) V"
proof -
  note f = perm_facts[OF p]
  have in_range: "p ! m < V" if "m < V" for m
    using that f(1,3) nth_mem[of m p] by auto
  have "spec_L_con (excess (map (\<lambda>i. P ! i) p) (map entropy (map (\<lambda>i. P ! i) p))) V
      = spec_L_con (\<lambda>m v. excess P (map entropy P) (p ! m) (p ! v)) V"
    by (rule spec_L_con_cong, rule excess_permuted) (simp_all add: f(1) len in_range)
  also have "\<dots> = spec_L_con (excess P (map entropy P)) V"
    unfolding spec_L_con_def by (rule reindex_pairs[OF perm_bij[OF p]])
  finally show ?thesis .
qed

lemma con_loss_permute:
  assumes p: "mset p = mset [0..<length (rows ev)]" and V: "length (rows ev) = V"
  shows "con_loss (permute_views p ev) a V C = con_loss ev a V C"
proof (cases "broadcastable (cols ev) (length a)")
  case False
  then show ?thesis
    by (simp add: con_loss_def con_P_def permute_views_def)
next
  case True
  note f = perm_facts[OF p]
  define P where "P = map (view_P a C) (rows ev)"
  have in_range: "i < length (rows ev)" if "i \<in> set p" for i
    using that f(3) by simp
  have cP: "con_P ev a C = Inr P"
    using True by (simp add: con_P_def P_def)
  have "map (view_P a C) (map (\<lambda>i. rows ev ! i) p) = map (\<lambda>i. P ! i) p"
    using in_range by (simp add: P_def)
  then have cP': "con_P (permute_views p ev) a C = Inr (map (\<lambda>i. P ! i) p)"
    using True by (simp add: con_P_def permute_views_def)
  have lenP: "length P = V" using V by (simp add: P_def)
  consider "V = 0" | "V = 1" | "2 \<le> V" by linarith
  then show ?thesis
  proof cases
    case 1
    then show ?thesis by (simp add: con_loss_def cP cP')
  next
    case 2
    then have "p = [0]" using f V by (cases p) auto
    then have "map (\<lambda>i. P ! i) p = P"
      using lenP 2 by (cases P) auto
    then show ?thesis by (simp add: con_loss_def cP cP')
  next
    case 3
    have "con_loss (permute_views p ev) a V C
        = Inr (spec_L_con (excess (map (\<lambda>i. P ! i) p) (map entropy (map (\<lambda>i. P ! i) p))) V)"
      by (rule con_loss_sum[OF 3 _ cP']) (simp add: permute_views_def f(1) V)
    also have "\<dots> = Inr (spec_L_con (excess P (map entropy P)) V)"
      using spec_L_con_permute[OF p[unfolded V] lenP] by simp
    also have "\<dots> = con_loss ev a V C"
      using con_loss_sum[OF 3 _ cP] V by simp
    finally show ?thesis .
  qed
qed

text \<open>
  C8, as amended: in exact real arithmetic, for every evidence matrix of \<open>V\<close> views,
  every label, every prior \<open>a\<close> and every permutation of the views, the matrix with its
  rows permuted has the same \<open>acc_loss\<close>, the same \<open>con_loss\<close> and the same total loss
  \<open>L_acc + lambda_con * L_con\<close>.
\<close>

theorem permutation_invariance:
  assumes "mset p = mset [0..<length (rows ev)]" "length (rows ev) = V"
  shows "acc_loss y (permute_views p ev) C = acc_loss y ev C
    \<and> con_loss (permute_views p ev) a V C = con_loss ev a V C
    \<and> total_loss lam y (permute_views p ev) a V C = total_loss lam y ev a V C"
proof -
  have a: "acc_loss y (permute_views p ev) C = acc_loss y ev C"
    by (rule acc_loss_permute[OF assms(1)])
  have c: "con_loss (permute_views p ev) a V C = con_loss ev a V C"
    by (rule con_loss_permute[OF assms])
  show ?thesis
    unfolding total_loss_def a c by simp
qed

theorem permutation_invariance_witness:
  "permute_views [1, 0] \<lparr>cols = 2, rows = [[0, 0], [1, 0]]\<rparr> = \<lparr>cols = 2, rows = [[1, 0], [0, 0]]\<rparr>
   \<and> acc_loss 0 \<lparr>cols = 2, rows = [[1, 0], [0, 0]]\<rparr> 2
       = acc_loss 0 \<lparr>cols = 2, rows = [[0, 0], [1, 0]]\<rparr> 2
   \<and> con_loss \<lparr>cols = 2, rows = [[1, 0], [0, 0]]\<rparr> [1 / 2, 1 / 2] 2 2
       = con_loss \<lparr>cols = 2, rows = [[0, 0], [1, 0]]\<rparr> [1 / 2, 1 / 2] 2 2
   \<and> total_loss 1 0 \<lparr>cols = 2, rows = [[1, 0], [0, 0]]\<rparr> [1 / 2, 1 / 2] 2 2
       = total_loss 1 0 \<lparr>cols = 2, rows = [[0, 0], [1, 0]]\<rparr> [1 / 2, 1 / 2] 2 2"
proof -
  have pv: "permute_views [1, 0] \<lparr>cols = 2, rows = [[0, 0], [1, 0]]\<rparr>
      = \<lparr>cols = 2, rows = [[1, 0], [0, 0]]\<rparr>"
    by (simp add: permute_views_def)
  have m: "mset [1, 0] = mset [0..<length (rows \<lparr>cols = 2, rows = [[0, 0], [1, 0]]\<rparr>)]"
    by (simp add: upt_rec)
  have l: "length (rows \<lparr>cols = 2, rows = [[0, 0], [1, 0]]\<rparr>) = 2" by simp
  show ?thesis
    using permutation_invariance [OF m l, of 0 2 "[1 / 2, 1 / 2]" 1]
    by (simp only: pv)
qed

text \<open>
  In binary32 the claim fails with three views. The evidence of the first class is 1, 1
  and \<open>2 ^ 24\<close> in the three views: added in this order the sum is 16777218, and with
  the last two views exchanged it is 16777216, since \<open>1 + 2 ^ 24\<close> rounds to \<open>2 ^ 24\<close>. The
  two losses differ. The two sums are the only ones that adding the three numbers in
  some order can give, so the loss depends on the order of the views whichever order
  \<open>torch.sum\<close> adds in.
\<close>

theorem acc_loss_32_order_of_views:
  "permute_views_32 [0, 2, 1]
       \<lparr>cols32 = 2, rows32 = [[Fin False 1, Fin False 0], [Fin False 1, Fin False 0],
                                [Fin False (2 ^ 24), Fin False 0]]\<rparr>
     = \<lparr>cols32 = 2, rows32 = [[Fin False 1, Fin False 0], [Fin False (2 ^ 24), Fin False 0],
                                [Fin False 1, Fin False 0]]\<rparr>
   \<and> acc_loss_32 0
       \<lparr>cols32 = 2, rows32 = [[Fin False 1, Fin False 0], [Fin False 1, Fin False 0],
                                [Fin False (2 ^ 24), Fin False 0]]\<rparr> 2
     = Inr (Fin False (2097151 / 2 ^ 68))
   \<and> acc_loss_32 0
       \<lparr>cols32 = 2, rows32 = [[Fin False 1, Fin False 0], [Fin False (2 ^ 24), Fin False 0],
                                [Fin False 1, Fin False 0]]\<rparr> 2
     = Inr (Fin False (1 / 2 ^ 47))
   \<and> acc_loss_32 0
       (permute_views_32 [0, 2, 1]
          \<lparr>cols32 = 2, rows32 = [[Fin False 1, Fin False 0], [Fin False 1, Fin False 0],
                                   [Fin False (2 ^ 24), Fin False 0]]\<rparr>) 2
     \<noteq> acc_loss_32 0
       \<lparr>cols32 = 2, rows32 = [[Fin False 1, Fin False 0], [Fin False 1, Fin False 0],
                                [Fin False (2 ^ 24), Fin False 0]]\<rparr> 2
   \<and> fadd (fadd (Fin False 1) (Fin False 1)) (Fin False (2 ^ 24)) = Fin False 16777218
   \<and> fadd (fadd (Fin False 1) (Fin False (2 ^ 24))) (Fin False 1) = Fin False 16777216"
proof -
  have p: "permute_views_32 [0, 2, 1]
       \<lparr>cols32 = 2, rows32 = [[Fin False 1, Fin False 0], [Fin False 1, Fin False 0],
                                [Fin False 16777216, Fin False 0]]\<rparr>
     = \<lparr>cols32 = 2, rows32 = [[Fin False 1, Fin False 0], [Fin False 16777216, Fin False 0],
                                [Fin False 1, Fin False 0]]\<rparr>"
    by (simp add: permute_views_32_def)
  have s1: "fadd (fadd (Fin False 1) (Fin False 1)) (Fin False 16777216) = Fin False 16777218"
    by (simp add: valof_def rnd)
  have s2: "fadd (fadd (Fin False 1) (Fin False 16777216)) (Fin False 1) = Fin False 16777216"
    by (simp add: valof_def rnd)
  show ?thesis
    using p s1 s2 acc_loss_32_order_a acc_loss_32_order_b by simp
qed

section \<open>The number of views in the input and the range of the label\<close>

lemma infer_loop_short:
  assumes "\<exists>v\<in>set vs. length X \<le> v"
  shows "isl (infer_loop M X vs ev)"
  using assms
  by (induction vs arbitrary: ev) (auto split: sum.splits)

lemma infer_loop_take:
  assumes "\<forall>v\<in>set vs. v < n"
  shows "infer_loop M (take n X) vs ev = infer_loop M X vs ev"
  using assms
  by (induction vs arbitrary: ev) (auto split: sum.splits)

lemma infer_short:
  assumes "length X < views M"
  shows "isl (infer M X)"
proof -
  have "\<exists>v\<in>set [0..<views M]. length X \<le> v"
    using assms by (intro bexI[of _ "length X"]) simp_all
  then have "isl (infer_loop M X [0..<views M] (replicate (views M) (replicate (classes M) 0)))"
    by (rule infer_loop_short)
  then show ?thesis
    by (auto simp: infer_def split: sum.splits)
qed

lemma infer_take: "infer M (take (views M) X) = infer M X"
  by (simp add: infer_def infer_loop_take)

lemma acc_loss_bad_label:
  assumes "y < 0 \<or> int C \<le> y"
  shows "acc_loss y ev C = Inl RuntimeError"
  using assms by (auto simp: acc_loss_def one_hot_def)

text \<open>
  C9, as amended: an input with fewer feature vectors than \<open>views\<close> makes \<open>infer\<close>, and so
  \<open>forward\<close>, fail; an input with more feature vectors than \<open>views\<close> is not refused:
  \<open>forward\<close> returns what it returns on the first \<open>views\<close> of them; a label outside
  \<open>[0, classes)\<close> makes \<open>forward\<close> fail, and when \<open>infer\<close> has succeeded the error is the one
  that \<open>one_hot\<close> raises inside \<open>acc_loss\<close>.
\<close>

theorem forward_shape_checks:
  "(length X < views M \<longrightarrow> isl (infer M X) \<and> isl (forward M X y))
   \<and> (views M \<le> length X \<longrightarrow> forward M X y = forward M (take (views M) X) y)
   \<and> (y < 0 \<or> int (classes M) \<le> y \<longrightarrow>
        isl (forward M X y)
        \<and> (\<forall>ev. infer M X = Inr ev \<longrightarrow> acc_loss y ev (classes M) = Inl RuntimeError))"
proof (intro conjI impI allI)
  assume "length X < views M"
  then show "isl (infer M X)" by (rule infer_short)
  then show "isl (forward M X y)"
    by (auto simp: forward_def split: sum.splits)
next
  show "forward M X y = forward M (take (views M) X) y"
    by (simp add: forward_def infer_take)
next
  assume y: "y < 0 \<or> int (classes M) \<le> y"
  show "isl (forward M X y)"
    by (auto simp: forward_def total_loss_def acc_loss_bad_label[OF y] split: sum.splits)
  fix ev
  show "acc_loss y ev (classes M) = Inl RuntimeError"
    by (rule acc_loss_bad_label[OF y])
qed

theorem forward_shape_checks_witness:
  "isl (forward two_view_model [[0]] 0)
   \<and> forward two_view_model [[0], [0], [5]] 0 = forward two_view_model (take 2 [[0], [0], [5]]) 0
   \<and> isl (forward two_view_model [[0], [0]] 2)"
proof -
  have v: "views two_view_model = 2" and c: "classes two_view_model = 2"
    by (simp_all add: two_view_model_def)
  have 1: "isl (forward two_view_model [[0]] 0)"
    using forward_shape_checks [of "[[0]]" two_view_model 0] by (simp add: v)
  have 2: "forward two_view_model [[0], [0], [5]] 0 = forward two_view_model (take 2 [[0], [0], [5]]) 0"
    using forward_shape_checks [of "[[0], [0], [5]]" two_view_model 0] by (simp add: v)
  have 3: "isl (forward two_view_model [[0], [0]] 2)"
    using forward_shape_checks [of "[[0], [0]]" two_view_model 2] by (simp add: c)
  from 1 2 3 show ?thesis by simp
qed

text \<open>
  Three feature vectors given to the model of two views: \<open>forward\<close> returns a loss, the
  one of the first two vectors.
\<close>

lemma two_view_infer:
  "infer two_view_model [[0], [0], [5]] = Inr \<lparr>cols = 2, rows = [[21, 21], [21, 21]]\<rparr>"
  by (simp add: infer_def two_view_model_def Classifier_forward_def linear_def softplus_def
      upt_rec numeral_2_eq_2)

lemma two_view_acc:
  "acc_loss 0 \<lparr>cols = 2, rows = [[21, 21], [21, 21]]\<rparr> 2 = Inr (44 / 87)"
  by (simp add: acc_loss_def Let_def one_hot_def broadcast_op_def broadcastable_def bc_def
      P_of_def S_of_def alpha_a_of_def sum_dim0_def upt_rec power2_eq_square)

lemma two_view_con:
  "con_loss \<lparr>cols = 2, rows = [[21, 21], [21, 21]]\<rparr> [1 / 2, 1 / 2] 2 2 = Inr 0"
  by (simp add: con_loss_def con_P_def broadcastable_def view_P_def Let_def bc_def
      E_mv_def excess_def entropy_def upt_rec numeral_2_eq_2)

theorem extra_views_ignored:
  "length [[0], [0], [5 :: real]] \<noteq> views two_view_model
   \<and> forward two_view_model [[0], [0], [5]] 0 = Inr (44 / 87)
   \<and> forward two_view_model [[0], [0]] 0 = Inr (44 / 87)"
proof -
  have "infer two_view_model [[0], [0]] = Inr \<lparr>cols = 2, rows = [[21, 21], [21, 21]]\<rparr>"
    by (simp add: infer_def two_view_model_def Classifier_forward_def linear_def softplus_def
      upt_rec numeral_2_eq_2)
  moreover have "classes two_view_model = 2" "views two_view_model = 2" "lambda_con two_view_model = 1"
    by (simp_all add: two_view_model_def)
  ultimately show ?thesis
    using two_view_infer two_view_acc two_view_con
    by (simp add: forward_def total_loss_def numeral_2_eq_2)
qed

end
